theory Spec2Isabelle
  imports Complex_Main
begin

section \<open>JavaScript values\<close>

text \<open>
  Strings are byte lists: a JavaScript string is represented by its UTF-8 encoding, so
  \<open>TextEncoder.encode\<close> and \<open>TextDecoder.decode\<close> are the identity on well-formed
  text. Finite numbers are exact rationals (the rounding and the overflow of IEEE
  doubles are not modelled); the three non-finite doubles are separate values. An object
  is the list of its properties in enumeration order, each key once.
\<close>

datatype jsnum = Fin rat | NaN | PosInf | NegInf

datatype json =
    JNull
  | JBool bool
  | JNum jsnum
  | JStr string
  | JArr "json list"
  | JObj "(string \<times> json) list"

type_synonym obj = "(string \<times> json) list"

text \<open>
  Property access \<open>value[key]\<close> on a value that is not null: \<open>None\<close> is
  \<open>undefined\<close>. The source only probes the names listed in its bodies, none of which
  is a property of an array, a string, a number or a boolean.
\<close>

fun field :: "json \<Rightarrow> string \<Rightarrow> json option" where
  "field (JObj fs) k = map_of fs k"
| "field _ k = None"

text \<open>\<open>typeof v === 'object' && v !== null\<close>, for a value that may be undefined.\<close>

fun is_object :: "json option \<Rightarrow> bool" where
  "is_object (Some (JObj fs)) = True"
| "is_object (Some (JArr xs)) = True"
| "is_object _ = False"

text \<open>JavaScript truthiness, as \<open>!message.role\<close> and \<open>if (body.stream)\<close> test it.\<close>

fun truthy :: "json option \<Rightarrow> bool" where
  "truthy None = False"
| "truthy (Some JNull) = False"
| "truthy (Some (JBool b)) = b"
| "truthy (Some (JNum (Fin q))) = (q \<noteq> 0)"
| "truthy (Some (JNum NaN)) = False"
| "truthy (Some (JNum n)) = True"
| "truthy (Some (JStr s)) = (s \<noteq> [])"
| "truthy (Some v) = True"

section \<open>String primitives of the platform\<close>

text \<open>
  \<open>String.prototype.trim\<close> removes white space and line terminators from both ends.
  The table lists the UTF-8 encodings of the code points ECMAScript counts as such:
  TAB, LF, VT, FF, CR, SP, U+00A0, U+1680, U+2000..U+200A, U+2028, U+2029, U+202F,
  U+205F, U+3000 and U+FEFF.
\<close>

definition white_space :: "string list" where
  "white_space =
     [[CHR 0x09], [CHR 0x0A], [CHR 0x0B], [CHR 0x0C], [CHR 0x0D], [CHR 0x20],
      [CHR 0xC2, CHR 0xA0], [CHR 0xE1, CHR 0x9A, CHR 0x80],
      [CHR 0xE2, CHR 0x80, CHR 0x80], [CHR 0xE2, CHR 0x80, CHR 0x81],
      [CHR 0xE2, CHR 0x80, CHR 0x82], [CHR 0xE2, CHR 0x80, CHR 0x83],
      [CHR 0xE2, CHR 0x80, CHR 0x84], [CHR 0xE2, CHR 0x80, CHR 0x85],
      [CHR 0xE2, CHR 0x80, CHR 0x86], [CHR 0xE2, CHR 0x80, CHR 0x87],
      [CHR 0xE2, CHR 0x80, CHR 0x88], [CHR 0xE2, CHR 0x80, CHR 0x89],
      [CHR 0xE2, CHR 0x80, CHR 0x8A], [CHR 0xE2, CHR 0x80, CHR 0xA8],
      [CHR 0xE2, CHR 0x80, CHR 0xA9], [CHR 0xE2, CHR 0x80, CHR 0xAF],
      [CHR 0xE2, CHR 0x81, CHR 0x9F], [CHR 0xE3, CHR 0x80, CHR 0x80],
      [CHR 0xEF, CHR 0xBB, CHR 0xBF]]"

definition startsWith :: "string \<Rightarrow> string \<Rightarrow> bool" where
  "startsWith s p = (take (length p) s = p)"

text \<open>The number of bytes of the white-space character \<open>s\<close> starts with; 0 if none.\<close>

definition ws_len :: "string list \<Rightarrow> string \<Rightarrow> nat" where
  "ws_len table s = (case List.find (startsWith s) table of None \<Rightarrow> 0 | Some w \<Rightarrow> length w)"

function strip_ws :: "string list \<Rightarrow> string \<Rightarrow> string" where
  "strip_ws table [] = []"
| "strip_ws table (c # cs) =
     (if 0 < ws_len table (c # cs) then strip_ws table (drop (ws_len table (c # cs)) (c # cs))
      else c # cs)"
  by pat_completeness auto
termination
  by (relation "measure (\<lambda>(table, s). length s)") auto

definition trimStart :: "string \<Rightarrow> string" where
  "trimStart s = strip_ws white_space s"

definition trimEnd :: "string \<Rightarrow> string" where
  "trimEnd s = rev (strip_ws (map rev white_space) (rev s))"

definition trim :: "string \<Rightarrow> string" where
  "trim s = trimEnd (trimStart s)"

section \<open>Numbers\<close>

definition is_digit :: "char \<Rightarrow> bool" where
  "is_digit c = (48 \<le> (of_char c :: nat) \<and> (of_char c :: nat) \<le> 57)"

definition digit_val :: "char \<Rightarrow> nat" where
  "digit_val c = of_char c - 48"

definition digits_val :: "string \<Rightarrow> nat" where
  "digits_val ds = foldl (\<lambda>n c. 10 * n + digit_val c) 0 ds"

definition digit_char :: "nat \<Rightarrow> char" where
  "digit_char d = char_of (48 + d)"

function show_nat :: "nat \<Rightarrow> string" where
  "show_nat n = (if n < 10 then [digit_char n] else show_nat (n div 10) @ [digit_char (n mod 10)])"
  by pat_completeness auto
termination
  by (relation "measure id") auto

declare show_nat.simps [simp del]

definition pow10 :: "int \<Rightarrow> rat" where
  "pow10 e = (if 0 \<le> e then 10 ^ nat e else 1 / 10 ^ nat (- e))"

text \<open>
  An optional exponent part \<open>[eE][+-]?[0-9]+\<close>: the exponent and the rest of the input;
  \<open>None\<close> when an \<open>e\<close> is not followed by digits.
\<close>

definition scan_exponent :: "string \<Rightarrow> (int \<times> string) option" where
  "scan_exponent s =
     (case s of
        [] \<Rightarrow> Some (0, [])
      | c # cs \<Rightarrow>
          if c = CHR ''e'' \<or> c = CHR ''E'' then
            (let neg = (case cs of [] \<Rightarrow> False | d # _ \<Rightarrow> d = CHR ''-'');
                 signed = (case cs of [] \<Rightarrow> False | d # _ \<Rightarrow> d = CHR ''-'' \<or> d = CHR ''+'');
                 body = (if signed then tl cs else cs);
                 ds = takeWhile is_digit body
             in if ds = [] then None
                else Some ((if neg then - int (digits_val ds) else int (digits_val ds)),
                           dropWhile is_digit body))
          else Some (0, c # cs))"

text \<open>
  \<open>Number(s)\<close> on a string (ECMAScript StringToNumber): surrounding white space is
  ignored, the empty string is 0, then a hexadecimal, octal or binary integer, or a
  signed decimal literal or \<open>Infinity\<close>; anything else is NaN.
\<close>

definition radix_digit :: "nat \<Rightarrow> char \<Rightarrow> nat option" where
  "radix_digit r c =
     (let n = (of_char c :: nat);
          v = (if 48 \<le> n \<and> n \<le> 57 then Some (n - 48)
               else if 97 \<le> n \<and> n \<le> 102 then Some (n - 87)
               else if 65 \<le> n \<and> n \<le> 70 then Some (n - 55)
               else None)
      in case v of None \<Rightarrow> None | Some d \<Rightarrow> if d < r then Some d else None)"

definition radix_literal :: "nat \<Rightarrow> string \<Rightarrow> jsnum" where
  "radix_literal r ds =
     (if ds \<noteq> [] \<and> list_all (\<lambda>c. radix_digit r c \<noteq> None) ds
      then Fin (of_nat (foldl (\<lambda>n c. r * n + the (radix_digit r c)) 0 ds))
      else NaN)"

definition unsigned_decimal :: "string \<Rightarrow> rat option" where
  "unsigned_decimal s =
     (let ip = takeWhile is_digit s;
          r1 = dropWhile is_digit s;
          dotted = (case r1 of [] \<Rightarrow> False | c # _ \<Rightarrow> c = CHR ''.'');
          fp = (if dotted then takeWhile is_digit (tl r1) else []);
          r2 = (if dotted then dropWhile is_digit (tl r1) else r1)
      in if ip = [] \<and> fp = [] then None
         else case scan_exponent r2 of
                None \<Rightarrow> None
              | Some (e, r3) \<Rightarrow>
                  if r3 = [] then Some (of_nat (digits_val (ip @ fp)) * pow10 (e - int (length fp)))
                  else None)"

definition StringToNumber :: "string \<Rightarrow> jsnum" where
  "StringToNumber s =
     (let t = trim s in
      if t = [] then Fin 0
      else if take 2 t = ''0x'' \<or> take 2 t = ''0X'' then radix_literal 16 (drop 2 t)
      else if take 2 t = ''0o'' \<or> take 2 t = ''0O'' then radix_literal 8 (drop 2 t)
      else if take 2 t = ''0b'' \<or> take 2 t = ''0B'' then radix_literal 2 (drop 2 t)
      else
        let neg = (hd t = CHR ''-'');
            u = (if hd t = CHR ''-'' \<or> hd t = CHR ''+'' then tl t else t)
        in if u = ''Infinity'' then (if neg then NegInf else PosInf)
           else case unsigned_decimal u of
                  None \<Rightarrow> NaN
                | Some q \<Rightarrow> Fin (if neg then - q else q))"

text \<open>
  \<open>Number::toString\<close> in radix 10, for a positive value: with \<open>s\<close> the decimal digits
  of the value without trailing zeros, \<open>k\<close> their count and \<open>n\<close> the position of the
  decimal point, positional notation when \<open>-6 < n \<le> 21\<close> and exponent notation
  otherwise. Exact on every decimal fraction of at most 400 fractional digits; the engine
  prints the shortest digits that read back as the same double.
\<close>

definition strip_zeros :: "string \<Rightarrow> string" where
  "strip_zeros ds = rev (dropWhile (\<lambda>c. c = CHR ''0'') (rev ds))"

definition positive_toString :: "rat \<Rightarrow> string" where
  "positive_toString q =
     (let (a, b) = quotient_of q;
          m = (case List.find (\<lambda>m. (a * 10 ^ m) mod b = 0) [0..<400] of None \<Rightarrow> 400 | Some m \<Rightarrow> m);
          all = show_nat (nat ((a * 10 ^ m) div b));
          s = strip_zeros all;
          k = length s;
          n = int (length all) - int m
      in if int k \<le> n \<and> n \<le> 21 then s @ replicate (nat (n - int k)) (CHR ''0'')
         else if 0 < n \<and> n \<le> 21 then take (nat n) s @ ''.'' @ drop (nat n) s
         else if - 6 < n \<and> n \<le> 0 then ''0.'' @ replicate (nat (- n)) (CHR ''0'') @ s
         else (if k = 1 then s else take 1 s @ ''.'' @ drop 1 s)
              @ ''e'' @ (if 0 < n - 1 then ''+'' else ''-'') @ show_nat (nat (abs (n - 1))))"

definition Number_toString :: "rat \<Rightarrow> string" where
  "Number_toString q =
     (if q = 0 then ''0''
      else if q < 0 then ''-'' @ positive_toString (- q)
      else positive_toString q)"

section \<open>JSON.stringify\<close>

definition hex_char :: "nat \<Rightarrow> char" where
  "hex_char d = (if d < 10 then char_of (48 + d) else char_of (87 + d))"

definition hex4 :: "nat \<Rightarrow> string" where
  "hex4 u = [hex_char (u div 4096 mod 16), hex_char (u div 256 mod 16),
             hex_char (u div 16 mod 16), hex_char (u mod 16)]"

definition escape_char :: "char \<Rightarrow> string" where
  "escape_char c =
     (let n = (of_char c :: nat) in
      if n = 0x22 then [CHR 0x5C, CHR 0x22]
      else if n = 0x5C then [CHR 0x5C, CHR 0x5C]
      else if n = 0x08 then [CHR 0x5C, CHR ''b'']
      else if n = 0x0C then [CHR 0x5C, CHR ''f'']
      else if n = 0x0A then [CHR 0x5C, CHR ''n'']
      else if n = 0x0D then [CHR 0x5C, CHR ''r'']
      else if n = 0x09 then [CHR 0x5C, CHR ''t'']
      else if n < 0x20 then [CHR 0x5C, CHR ''u''] @ hex4 n
      else [c])"

text \<open>
  A lone surrogate code unit is held as the three bytes \<open>ED A0..BF 80..BF\<close>;
  \<open>JSON.stringify\<close> writes it as a \<open>\u\<close> escape.
\<close>

definition surrogate_at :: "string \<Rightarrow> nat option" where
  "surrogate_at s =
     (case s of
        a # b # c # _ \<Rightarrow>
          if a = CHR 0xED \<and> 0xA0 \<le> (of_char b :: nat) \<and> (of_char b :: nat) \<le> 0xBF
             \<and> 0x80 \<le> (of_char c :: nat) \<and> (of_char c :: nat) \<le> 0xBF
          then Some (0xD000 + (of_char b - 0x80) * 64 + (of_char c - 0x80))
          else None
      | _ \<Rightarrow> None)"

function quote_body :: "string \<Rightarrow> string" where
  "quote_body [] = []"
| "quote_body (c # cs) =
     (case surrogate_at (c # cs) of
        Some u \<Rightarrow> [CHR 0x5C, CHR ''u''] @ hex4 u @ quote_body (drop 2 cs)
      | None \<Rightarrow> escape_char c @ quote_body cs)"
  by pat_completeness auto
termination
  by (relation "measure length") auto

definition QuoteJSONString :: "string \<Rightarrow> string" where
  "QuoteJSONString s = [CHR 0x22] @ quote_body s @ [CHR 0x22]"

fun join :: "string \<Rightarrow> string list \<Rightarrow> string" where
  "join sep [] = []"
| "join sep [x] = x"
| "join sep (x # y # ys) = x @ sep @ join sep (y # ys)"

text \<open>
  \<open>JSON.stringify\<close> on a JSON value (no cycles, no functions, no \<open>undefined\<close>): it always
  returns a string. Non-finite numbers are written as \<open>null\<close>.
\<close>

fun JSON_stringify :: "json \<Rightarrow> string" where
  "JSON_stringify JNull = ''null''"
| "JSON_stringify (JBool b) = (if b then ''true'' else ''false'')"
| "JSON_stringify (JNum n) = (case n of Fin q \<Rightarrow> Number_toString q | _ \<Rightarrow> ''null'')"
| "JSON_stringify (JStr s) = QuoteJSONString s"
| "JSON_stringify (JArr xs) = ''['' @ join '','' (map JSON_stringify xs) @ '']''"
| "JSON_stringify (JObj fs) =
     ''{'' @ join '','' (map (\<lambda>kv. QuoteJSONString (fst kv) @ '':'' @ JSON_stringify (snd kv)) fs) @ ''}''"

section \<open>JSON.parse\<close>

definition utf8 :: "nat \<Rightarrow> string" where
  "utf8 u =
     (if u < 0x80 then [char_of u]
      else if u < 0x800 then [char_of (0xC0 + u div 64), char_of (0x80 + u mod 64)]
      else if u < 0x10000 then
        [char_of (0xE0 + u div 4096), char_of (0x80 + u div 64 mod 64), char_of (0x80 + u mod 64)]
      else
        [char_of (0xF0 + u div 262144), char_of (0x80 + u div 4096 mod 64),
         char_of (0x80 + u div 64 mod 64), char_of (0x80 + u mod 64)])"

definition parse_hex4 :: "string \<Rightarrow> (nat \<times> string) option" where
  "parse_hex4 s =
     (case s of
        a # b # c # d # r \<Rightarrow>
          (case (radix_digit 16 a, radix_digit 16 b, radix_digit 16 c, radix_digit 16 d) of
             (Some w, Some x, Some y, Some z) \<Rightarrow> Some (4096 * w + 256 * x + 16 * y + z, r)
           | _ \<Rightarrow> None)
      | _ \<Rightarrow> None)"

text \<open>
  The text after a backslash inside a string literal: the bytes it denotes and the rest
  of the input. A \<open>\u\<close> escape of a high surrogate directly followed by one of a low
  surrogate denotes one code point.
\<close>

definition unescape :: "string \<Rightarrow> (string \<times> string) option" where
  "unescape s =
     (case s of
        [] \<Rightarrow> None
      | e # r \<Rightarrow>
          if e = CHR 0x22 then Some ([CHR 0x22], r)
          else if e = CHR 0x5C then Some ([CHR 0x5C], r)
          else if e = CHR ''/'' then Some (''/'', r)
          else if e = CHR ''b'' then Some ([CHR 0x08], r)
          else if e = CHR ''f'' then Some ([CHR 0x0C], r)
          else if e = CHR ''n'' then Some ([CHR 0x0A], r)
          else if e = CHR ''r'' then Some ([CHR 0x0D], r)
          else if e = CHR ''t'' then Some ([CHR 0x09], r)
          else if e = CHR ''u'' then
            (case parse_hex4 r of
               None \<Rightarrow> None
             | Some (u, r1) \<Rightarrow>
                 (case (if 0xD800 \<le> u \<and> u < 0xDC00 \<and> take 2 r1 = [CHR 0x5C, CHR ''u'']
                        then parse_hex4 (drop 2 r1) else None) of
                    Some (l, r2) \<Rightarrow>
                      if 0xDC00 \<le> l \<and> l < 0xE000
                      then Some (utf8 (0x10000 + (u - 0xD800) * 1024 + (l - 0xDC00)), r2)
                      else Some (utf8 u, r1)
                  | None \<Rightarrow> Some (utf8 u, r1)))
          else None)"

lemma parse_hex4_length: "parse_hex4 s = Some (u, r) \<Longrightarrow> length s = length r + 4"
  by (auto simp: parse_hex4_def split: list.splits option.splits)

lemma unescape_length: "unescape s = Some (b, r) \<Longrightarrow> length r < length s"
  by (auto simp: unescape_def split: list.splits option.splits if_splits
      dest!: parse_hex4_length)

text \<open>The characters of a string literal after its opening quote, up to the closing one.\<close>

function parse_string_body :: "string \<Rightarrow> (string \<times> string) option" where
  "parse_string_body [] = None"
| "parse_string_body (c # cs) =
     (if c = CHR 0x22 then Some ([], cs)
      else if c = CHR 0x5C then
        (case unescape cs of
           None \<Rightarrow> None
         | Some (b, r) \<Rightarrow>
             (case parse_string_body r of None \<Rightarrow> None | Some (str, r') \<Rightarrow> Some (b @ str, r')))
      else if (of_char c :: nat) < 0x20 then None
      else (case parse_string_body cs of None \<Rightarrow> None | Some (str, r') \<Rightarrow> Some (c # str, r')))"
  by pat_completeness auto
termination
  by (relation "measure length") (auto dest: unescape_length)

fun skip_ws :: "string \<Rightarrow> string" where
  "skip_ws [] = []"
| "skip_ws (c # cs) =
     (if c = CHR 0x20 \<or> c = CHR 0x09 \<or> c = CHR 0x0A \<or> c = CHR 0x0D then skip_ws cs else c # cs)"

text \<open>
  A JSON number, \<open>-?(0|[1-9][0-9]*)(\.[0-9]+)?([eE][+-]?[0-9]+)?\<close>, scanned in its four
  parts: each scanner returns what it read and the rest of the input.
\<close>

definition scan_sign :: "string \<Rightarrow> bool \<times> string" where
  "scan_sign s = (case s of [] \<Rightarrow> (False, []) | c # cs \<Rightarrow> if c = CHR ''-'' then (True, cs) else (False, c # cs))"

definition scan_int :: "string \<Rightarrow> (string \<times> string) option" where
  "scan_int s =
     (case s of
        [] \<Rightarrow> None
      | c # cs \<Rightarrow>
          if c = CHR ''0'' then Some (''0'', cs)
          else if is_digit c then Some (c # takeWhile is_digit cs, dropWhile is_digit cs)
          else None)"

definition scan_fraction :: "string \<Rightarrow> (string \<times> string) option" where
  "scan_fraction s =
     (case s of
        [] \<Rightarrow> Some ([], [])
      | c # cs \<Rightarrow>
          if c = CHR ''.'' then
            (if takeWhile is_digit cs = [] then None
             else Some (takeWhile is_digit cs, dropWhile is_digit cs))
          else Some ([], c # cs))"

definition parse_number :: "string \<Rightarrow> (rat \<times> string) option" where
  "parse_number s =
     (case scan_sign s of
        (neg, s1) \<Rightarrow>
          (case scan_int s1 of
             None \<Rightarrow> None
           | Some (ip, r1) \<Rightarrow>
               (case scan_fraction r1 of
                  None \<Rightarrow> None
                | Some (fp, r2) \<Rightarrow>
                    (case scan_exponent r2 of
                       None \<Rightarrow> None
                     | Some (e, r3) \<Rightarrow>
                         let q = of_nat (digits_val (ip @ fp)) * pow10 (e - int (length fp))
                         in Some (if neg then - q else q, r3)))))"

text \<open>
  Defining a property: a repeated key keeps its first position and takes the last value.
  (The engine enumerates keys that are array indices before the others; the list keeps
  the order of the text.)
\<close>

fun put :: "string \<Rightarrow> json \<Rightarrow> obj \<Rightarrow> obj" where
  "put k v [] = [(k, v)]"
| "put k v ((k', v') # fs) = (if k = k' then (k, v) # fs else (k', v') # put k v fs)"

lemma skip_ws_length: "length (skip_ws s) \<le> length s"
  by (induction s) auto

lemma skip_ws_Cons_length: "skip_ws s = c # cs \<Longrightarrow> length cs < length s"
  using skip_ws_length [of s] by simp

lemma parse_string_body_length: "parse_string_body s = Some (str, r) \<Longrightarrow> length r < length s"
proof (induction s arbitrary: str r rule: parse_string_body.induct)
  case 1
  then show ?case by simp
next
  case (2 c cs)
  then show ?case
    by (fastforce split: if_splits option.splits dest: unescape_length)
qed

text \<open>
  The recursive-descent grammar. \<open>parse_elements\<close> reads the elements of an array after
  its opening bracket, \<open>parse_members\<close> the members of an object after its opening brace.
  The two tests \<open>length r < length s\<close> on the rest a nested value leaves make the
  recursion well-founded; \<open>parse_value_length\<close> below shows that they never fail.
\<close>

function parse_value :: "string \<Rightarrow> (json \<times> string) option"
  and parse_elements :: "json list \<Rightarrow> string \<Rightarrow> (json \<times> string) option"
  and parse_members :: "obj \<Rightarrow> string \<Rightarrow> (json \<times> string) option"
where
  "parse_value s =
     (case skip_ws s of
        [] \<Rightarrow> None
      | c # cs \<Rightarrow>
          if c = CHR ''{'' then
            (case skip_ws cs of
               [] \<Rightarrow> None
             | d # ds \<Rightarrow> if d = CHR ''}'' then Some (JObj [], ds) else parse_members [] (d # ds))
          else if c = CHR ''['' then
            (case skip_ws cs of
               [] \<Rightarrow> None
             | d # ds \<Rightarrow> if d = CHR '']'' then Some (JArr [], ds) else parse_elements [] (d # ds))
          else if c = CHR 0x22 then
            (case parse_string_body cs of None \<Rightarrow> None | Some (str, r) \<Rightarrow> Some (JStr str, r))
          else if take 4 (c # cs) = ''true'' then Some (JBool True, drop 4 (c # cs))
          else if take 5 (c # cs) = ''false'' then Some (JBool False, drop 5 (c # cs))
          else if take 4 (c # cs) = ''null'' then Some (JNull, drop 4 (c # cs))
          else (case parse_number (c # cs) of None \<Rightarrow> None | Some (q, r) \<Rightarrow> Some (JNum (Fin q), r)))"
| "parse_elements acc s =
     (case parse_value s of
        None \<Rightarrow> None
      | Some (v, r) \<Rightarrow>
          if length r < length s then
            (case skip_ws r of
               [] \<Rightarrow> None
             | c # cs \<Rightarrow>
                 if c = CHR '','' then parse_elements (acc @ [v]) cs
                 else if c = CHR '']'' then Some (JArr (acc @ [v]), cs)
                 else None)
          else None)"
| "parse_members acc s =
     (case skip_ws s of
        [] \<Rightarrow> None
      | c # cs \<Rightarrow>
          if c \<noteq> CHR 0x22 then None
          else
            (case parse_string_body cs of
               None \<Rightarrow> None
             | Some (k, r) \<Rightarrow>
                 (case skip_ws r of
                    [] \<Rightarrow> None
                  | d # ds \<Rightarrow>
                      if d \<noteq> CHR '':'' then None
                      else
                        (case parse_value ds of
                           None \<Rightarrow> None
                         | Some (v, r2) \<Rightarrow>
                             if length r2 < length ds then
                               (case skip_ws r2 of
                                  [] \<Rightarrow> None
                                | e # es \<Rightarrow>
                                    if e = CHR '','' then parse_members (put k v acc) es
                                    else if e = CHR ''}'' then Some (JObj (put k v acc), es)
                                    else None)
                             else None))))"
  by pat_completeness auto
termination
proof (relation "measure (\<lambda>x. case x of
          Inl s \<Rightarrow> 2 * length s
        | Inr (Inl (acc, s)) \<Rightarrow> 2 * length s + 1
        | Inr (Inr (acc, s)) \<Rightarrow> 2 * length s + 1)", goal_cases)
  case 1
  then show ?case by simp
next
  case (2 s c cs d ds)
  then show ?case
    using skip_ws_Cons_length [of s c cs] skip_ws_length [of cs] by simp
next
  case (3 s c cs d ds)
  then show ?case
    using skip_ws_Cons_length [of s c cs] skip_ws_length [of cs] by simp
next
  case (4 acc s)
  then show ?case by simp
next
  case (5 acc s x v r c cs)
  then show ?case
    using skip_ws_Cons_length [of r c cs] by simp
next
  case (6 acc s c cs x k r d ds)
  then show ?case
    using skip_ws_Cons_length [of s c cs] parse_string_body_length [of cs k r]
      skip_ws_Cons_length [of r d ds] by simp
next
  case (7 acc s c cs x k r d ds y v r2 e es)
  then show ?case
    using skip_ws_Cons_length [of s c cs] parse_string_body_length [of cs k r]
      skip_ws_Cons_length [of r d ds] skip_ws_Cons_length [of r2 e es] by simp
qed

declare parse_value.simps [simp del] parse_elements.simps [simp del] parse_members.simps [simp del]

text \<open>\<open>JSON.parse\<close>: \<open>None\<close> is the SyntaxError it throws.\<close>

definition JSON_parse :: "string \<Rightarrow> json option" where
  "JSON_parse s =
     (case parse_value s of
        None \<Rightarrow> None
      | Some (v, r) \<Rightarrow> if skip_ws r = [] then Some v else None)"

text \<open>
  Every scanner leaves a shorter rest, so the two tests in the grammar always succeed.
\<close>

lemma scan_exponent_length: "scan_exponent s = Some (e, r) \<Longrightarrow> length r \<le> length s"
proof (cases s)
  case Nil
  then show "scan_exponent s = Some (e, r) \<Longrightarrow> length r \<le> length s"
    by (simp add: scan_exponent_def)
next
  case (Cons c cs)
  have d: "length (dropWhile is_digit xs) \<le> length xs" for xs
    by (simp add: length_dropWhile_le)
  assume "scan_exponent s = Some (e, r)"
  with Cons show "length r \<le> length s"
    using d [of cs] d [of "tl cs"]
    by (auto simp: scan_exponent_def Let_def split: if_splits list.splits)
qed

lemma scan_sign_length: "scan_sign s = (neg, r) \<Longrightarrow> length r \<le> length s"
  by (auto simp: scan_sign_def split: list.splits if_splits)

lemma scan_int_length: "scan_int s = Some (ip, r) \<Longrightarrow> length r < length s"
  using length_dropWhile_le [of is_digit "tl s"]
  by (auto simp: scan_int_def less_Suc_eq_le split: list.splits if_splits)

lemma scan_fraction_length: "scan_fraction s = Some (fp, r) \<Longrightarrow> length r \<le> length s"
  using length_dropWhile_le [of is_digit "tl s"]
  by (auto simp: scan_fraction_def le_Suc_eq split: list.splits if_splits)

lemma parse_number_length: "parse_number s = Some (q, r) \<Longrightarrow> length r < length s"
proof -
  assume a: "parse_number s = Some (q, r)"
  obtain neg s1 where s1: "scan_sign s = (neg, s1)"
    by (cases "scan_sign s")
  with a obtain ip r1 where r1: "scan_int s1 = Some (ip, r1)"
    by (auto simp: parse_number_def split: option.splits)
  with a s1 obtain fp r2 where r2: "scan_fraction r1 = Some (fp, r2)"
    by (auto simp: parse_number_def split: option.splits)
  with a s1 r1 obtain e where e: "scan_exponent r2 = Some (e, r)"
    by (auto simp: parse_number_def Let_def split: option.splits)
  from scan_sign_length [OF s1] scan_int_length [OF r1] scan_fraction_length [OF r2]
    scan_exponent_length [OF e]
  show ?thesis by simp
qed


lemma literal_rest: "take n (c # cs) = lit \<Longrightarrow> 0 < n \<Longrightarrow> length (drop n (c # cs)) < length (c # cs)"
  by (cases n) auto

lemma parse_value_length:
  "(\<forall>v r. parse_value s = Some (v, r) \<longrightarrow> length r < length s)"
  "(\<forall>v r. parse_elements acc s = Some (v, r) \<longrightarrow> length r < length s)"
  "(\<forall>v r. parse_members macc s = Some (v, r) \<longrightarrow> length r < length s)"
proof (induction s and acc s and macc s rule: parse_value_parse_elements_parse_members.induct)
  case (1 s)
  show ?case
  proof (intro allI impI)
    fix v r
    assume a: "parse_value s = Some (v, r)"
    then obtain c cs where sk: "skip_ws s = c # cs"
      by (subst (asm) parse_value.simps) (auto split: list.splits)
    have len: "length cs < length s"
      using skip_ws_Cons_length [OF sk] .
    consider (obj) "c = CHR ''{''" | (arr) "c \<noteq> CHR ''{''" "c = CHR ''[''"
      | (other) "c \<noteq> CHR ''{''" "c \<noteq> CHR ''[''"
      by blast
    then show "length r < length s"
    proof cases
      case obj
      from a sk obj obtain d ds where sk2: "skip_ws cs = d # ds"
        by (subst (asm) parse_value.simps) (auto split: list.splits)
      have len2: "length ds < length cs"
        using skip_ws_Cons_length [OF sk2] .
      show ?thesis
      proof (cases "d = CHR ''}''")
        case True
        with a sk obj sk2 have "r = ds"
          by (subst (asm) parse_value.simps) simp
        with len len2 show ?thesis by simp
      next
        case False
        with a sk obj sk2 have "parse_members [] (d # ds) = Some (v, r)"
          by (subst (asm) parse_value.simps) simp
        with "1.IH"(1) [OF sk obj sk2 False] have "length r < length (d # ds)"
          by blast
        with len len2 show ?thesis by simp
      qed
    next
      case arr
      from a sk arr obtain d ds where sk2: "skip_ws cs = d # ds"
        by (subst (asm) parse_value.simps) (auto split: list.splits)
      have len2: "length ds < length cs"
        using skip_ws_Cons_length [OF sk2] .
      show ?thesis
      proof (cases "d = CHR '']''")
        case True
        with a sk arr sk2 have "r = ds"
          by (subst (asm) parse_value.simps) simp
        with len len2 show ?thesis by simp
      next
        case False
        with a sk arr sk2 have "parse_elements [] (d # ds) = Some (v, r)"
          by (subst (asm) parse_value.simps) simp
        with "1.IH"(2) [OF sk arr(1) arr(2) sk2 False] have "length r < length (d # ds)"
          by blast
        with len len2 show ?thesis by simp
      qed
    next
      case other
      from a sk other have
        "(c = CHR 0x22 \<and> (\<exists>str. parse_string_body cs = Some (str, r)))
         \<or> (take 4 (c # cs) = ''true'' \<and> r = drop 4 (c # cs))
         \<or> (take 5 (c # cs) = ''false'' \<and> r = drop 5 (c # cs))
         \<or> (take 4 (c # cs) = ''null'' \<and> r = drop 4 (c # cs))
         \<or> (\<exists>q. parse_number (c # cs) = Some (q, r))"
        by (subst (asm) parse_value.simps) (auto split: if_splits option.splits)
      then have "length r < length (c # cs)"
        using parse_string_body_length [of cs _ r] parse_number_length [of "c # cs" _ r]
          literal_rest [of 4 c cs] literal_rest [of 5 c cs]
        by (elim disjE conjE exE) (simp_all add: less_Suc_eq)
      with len show ?thesis by simp
    qed
  qed
next
  case (2 acc s)
  show ?case
  proof (intro allI impI)
    fix v r
    assume a: "parse_elements acc s = Some (v, r)"
    then obtain w r1 where pv: "parse_value s = Some (w, r1)"
      by (subst (asm) parse_elements.simps) (auto split: option.splits)
    with "2.IH"(1) have l1: "length r1 < length s" by blast
    from a pv l1 obtain c cs where sk: "skip_ws r1 = c # cs"
      by (subst (asm) parse_elements.simps) (auto split: list.splits)
    have l2: "length cs < length r1"
      using skip_ws_Cons_length [OF sk] .
    show "length r < length s"
    proof (cases "c = CHR '',''")
      case True
      with a pv l1 sk have "parse_elements (acc @ [w]) cs = Some (v, r)"
        by (subst (asm) parse_elements.simps) simp
      with "2.IH"(2) [OF pv refl l1 sk True] have "length r < length cs"
        by blast
      with l1 l2 show ?thesis by simp
    next
      case False
      with a pv l1 sk have "r = cs"
        by (subst (asm) parse_elements.simps) (auto split: if_splits)
      with l1 l2 show ?thesis by simp
    qed
  qed
next
  case (3 macc s)
  show ?case
  proof (intro allI impI)
    fix v r
    assume a: "parse_members macc s = Some (v, r)"
    then obtain c cs where sk: "skip_ws s = c # cs"
      by (subst (asm) parse_members.simps) (auto split: list.splits)
    from a sk have q: "\<not> c \<noteq> CHR 0x22"
      by (subst (asm) parse_members.simps) (auto split: if_splits)
    from a sk q obtain k r1 where ps: "parse_string_body cs = Some (k, r1)"
      by (subst (asm) parse_members.simps) (auto split: option.splits)
    from a sk q ps obtain d ds where sk2: "skip_ws r1 = d # ds"
      by (subst (asm) parse_members.simps) (auto split: list.splits)
    from a sk q ps sk2 have col: "\<not> d \<noteq> CHR '':''"
      by (subst (asm) parse_members.simps) (auto split: if_splits)
    from a sk q ps sk2 col obtain w r2 where pv: "parse_value ds = Some (w, r2)"
      by (subst (asm) parse_members.simps) (auto split: option.splits)
    with "3.IH"(1) [OF sk q ps refl sk2 col] have l3: "length r2 < length ds"
      by blast
    from a sk q ps sk2 col pv l3 obtain e es where sk3: "skip_ws r2 = e # es"
      by (subst (asm) parse_members.simps) (auto split: list.splits)
    have lens: "length cs < length s" "length r1 < length cs" "length ds < length r1"
      "length es < length r2"
      using skip_ws_Cons_length [OF sk] parse_string_body_length [OF ps]
        skip_ws_Cons_length [OF sk2] skip_ws_Cons_length [OF sk3] by simp_all
    show "length r < length s"
    proof (cases "e = CHR '',''")
      case True
      with a sk q ps sk2 col pv l3 sk3 have "parse_members (put k w macc) es = Some (v, r)"
        by (subst (asm) parse_members.simps) simp
      with "3.IH"(2) [OF sk q ps refl sk2 col pv refl l3 sk3 True] have "length r < length es"
        by blast
      with lens l3 show ?thesis by simp
    next
      case False
      with a sk q ps sk2 col pv l3 sk3 have "r = es"
        by (subst (asm) parse_members.simps) (auto split: if_splits)
      with lens l3 show ?thesis by simp
    qed
  qed
qed

text \<open>The grammar as the recursion reads without the two tests.\<close>

lemma parse_elements_unguarded:
  "parse_elements acc s =
     (case parse_value s of
        None \<Rightarrow> None
      | Some (v, r) \<Rightarrow>
          (case skip_ws r of
             [] \<Rightarrow> None
           | c # cs \<Rightarrow>
               if c = CHR '','' then parse_elements (acc @ [v]) cs
               else if c = CHR '']'' then Some (JArr (acc @ [v]), cs)
               else None))"
  using parse_value_length(1) [of s]
  by (subst parse_elements.simps) (auto split: option.splits)

lemma parse_members_unguarded:
  "parse_members acc s =
     (case skip_ws s of
        [] \<Rightarrow> None
      | c # cs \<Rightarrow>
          if c \<noteq> CHR 0x22 then None
          else
            (case parse_string_body cs of
               None \<Rightarrow> None
             | Some (k, r) \<Rightarrow>
                 (case skip_ws r of
                    [] \<Rightarrow> None
                  | d # ds \<Rightarrow>
                      if d \<noteq> CHR '':'' then None
                      else
                        (case parse_value ds of
                           None \<Rightarrow> None
                         | Some (v, r2) \<Rightarrow>
                             (case skip_ws r2 of
                                [] \<Rightarrow> None
                              | e # es \<Rightarrow>
                                  if e = CHR '','' then parse_members (put k v acc) es
                                  else if e = CHR ''}'' then Some (JObj (put k v acc), es)
                                  else None)))))"
proof -
  have "\<And>ds v r2. parse_value ds = Some (v, r2) \<Longrightarrow> length r2 < length ds"
    using parse_value_length(1) by blast
  then show ?thesis
    by (subst parse_members.simps) (auto split: option.splits list.splits)
qed

section \<open>Chunk framer\<close>

text \<open>
  \<open>createChunkPayload\<close>; the last argument is the reading of \<open>Date.now()\<close> in
  milliseconds. The model identifier is whatever JSON value the request carried.
\<close>

definition createChunkPayload :: "string \<Rightarrow> json \<Rightarrow> string option \<Rightarrow> string option \<Rightarrow> nat \<Rightarrow> json" where
  "createChunkPayload cid model content finishReason now =
     JObj [(''id'', JStr cid),
           (''object'', JStr ''chat.completion.chunk''),
           (''created'', JNum (Fin (of_nat (now div 1000)))),
           (''model'', model),
           (''choices'',
              JArr [JObj [(''index'', JNum (Fin 0)),
                          (''delta'', (case content of None \<Rightarrow> JObj [] | Some c \<Rightarrow> JObj [(''content'', JStr c)])),
                          (''finish_reason'', (case finishReason of None \<Rightarrow> JNull | Some r \<Rightarrow> JStr r))]])]"

definition sseData :: "json \<Rightarrow> string" where
  "sseData payload = ''data: '' @ JSON_stringify payload @ [CHR 0x0A, CHR 0x0A]"

section \<open>Text and delta extraction\<close>

lemma map_of_size: "map_of fs k = Some v \<Longrightarrow> size v < size (JObj fs)"
  by (induction fs) (auto split: if_splits)

function extractTextCandidates :: "json option \<Rightarrow> string list" where
  "extractTextCandidates (Some (JStr s)) = (if length s > 0 then [s] else [])"
| "extractTextCandidates (Some (JArr xs)) = concat (map (\<lambda>item. extractTextCandidates (Some item)) xs)"
| "extractTextCandidates (Some (JObj fs)) =
     (let keys = [''response'', ''text'', ''content'', ''delta'', ''output_text''];
          results = concat (map (\<lambda>key. extractTextCandidates (map_of fs key)) keys)
      in if length results > 0 then results else [])"
| "extractTextCandidates (Some JNull) = []"
| "extractTextCandidates (Some (JBool b)) = []"
| "extractTextCandidates (Some (JNum n)) = []"
| "extractTextCandidates None = []"
  by pat_completeness auto
termination
proof (relation "measure (\<lambda>v. case v of None \<Rightarrow> 0 | Some j \<Rightarrow> Suc (size j))", goal_cases)
  case 1
  then show ?case by simp
next
  case (2 xs item)
  then show ?case by (simp add: less_Suc_eq_le size_list_estimation')
next
  case (3 fs keys key)
  then show ?case
    using map_of_size [of fs key] by (cases "map_of fs key") auto
qed

fun push_text :: "json option \<Rightarrow> string list \<Rightarrow> string list" where
  "push_text (Some (JStr s)) out = (if length s > 0 then out @ [s] else out)"
| "push_text _ out = out"

definition push_delta_content :: "json option \<Rightarrow> string list \<Rightarrow> string list" where
  "push_delta_content delta out =
     (case delta of
        None \<Rightarrow> out
      | Some d \<Rightarrow> if is_object (Some d) then push_text (field d ''content'') out else out)"

definition extractDeltaText :: "json \<Rightarrow> string list" where
  "extractDeltaText v =
     (if \<not> is_object (Some v) then []
      else
        let out1 = push_text (field v ''response'') [];
            out2 = push_text (field v ''output_text'') out1;
            out3 = push_text (field v ''text'') out2;
            out4 = push_delta_content (field v ''delta'') out3
        in case field v ''choices'' of
             Some (JArr choices) \<Rightarrow>
               fold (\<lambda>choice out.
                       if \<not> is_object (Some choice) then out
                       else push_text (field choice ''text'')
                              (push_delta_content (field choice ''delta'') out))
                    choices out4
           | _ \<Rightarrow> out4)"

fun as_string :: "json option \<Rightarrow> string option" where
  "as_string (Some (JStr s)) = Some s"
| "as_string _ = None"

definition container_text :: "json option \<Rightarrow> string option" where
  "container_text resultContainer =
     (case resultContainer of
        None \<Rightarrow> None
      | Some nested \<Rightarrow>
          if is_object (Some nested) then
            (case as_string (field nested ''response'') of
               Some s \<Rightarrow> Some s
             | None \<Rightarrow> as_string (field nested ''output_text''))
          else None)"

definition output_item :: "json \<Rightarrow> string" where
  "output_item item =
     (case item of
        JStr s \<Rightarrow> s
      | _ \<Rightarrow>
          if is_object (Some item) then
            (case as_string (field item ''text'') of Some s \<Rightarrow> s | None \<Rightarrow> [])
          else [])"

definition output_text :: "json option \<Rightarrow> string option" where
  "output_text output =
     (case output of
        Some (JArr items) \<Rightarrow>
          (let text = trim (concat (map output_item items))
           in if text \<noteq> [] then Some text else None)
      | _ \<Rightarrow> None)"

definition extractTextFromAiResult :: "obj \<Rightarrow> string" where
  "extractTextFromAiResult result =
     (case as_string (map_of result ''response'') of
        Some s \<Rightarrow> s
      | None \<Rightarrow>
          (case container_text (map_of result ''result'') of
             Some s \<Rightarrow> s
           | None \<Rightarrow>
               (case output_text (map_of result ''output'') of
                  Some s \<Rightarrow> s
                | None \<Rightarrow> JSON_stringify (JObj result))))"

section \<open>Usage extraction\<close>

record usage =
  prompt_tokens :: rat
  completion_tokens :: rat
  total_tokens :: rat

fun toNumber :: "json option \<Rightarrow> rat option" where
  "toNumber (Some (JNum (Fin q))) = Some q"
| "toNumber (Some (JStr s)) = (case StringToNumber s of Fin q \<Rightarrow> Some q | _ \<Rightarrow> None)"
| "toNumber _ = None"

text \<open>The operator \<open>??\<close> on values that are a number or null.\<close>

fun coalesce :: "'a option \<Rightarrow> 'a option \<Rightarrow> 'a option" where
  "coalesce (Some x) y = Some x"
| "coalesce None y = y"

definition promptTokens :: "json \<Rightarrow> rat option" where
  "promptTokens source =
     coalesce (toNumber (field source ''prompt_tokens''))
       (coalesce (toNumber (field source ''input_tokens''))
          (coalesce (toNumber (field source ''promptTokens''))
             (toNumber (field source ''inputTokens''))))"

definition completionTokens :: "json \<Rightarrow> rat option" where
  "completionTokens source =
     coalesce (toNumber (field source ''completion_tokens''))
       (coalesce (toNumber (field source ''output_tokens''))
          (coalesce (toNumber (field source ''completionTokens''))
             (toNumber (field source ''outputTokens''))))"

definition totalTokens :: "json \<Rightarrow> rat option" where
  "totalTokens source =
     coalesce (toNumber (field source ''total_tokens''))
       (coalesce (toNumber (field source ''totalTokens''))
          (case (promptTokens source, completionTokens source) of
             (Some p, Some c) \<Rightarrow> Some (p + c)
           | _ \<Rightarrow> None))"

definition getUsageFromObject :: "json \<Rightarrow> usage option" where
  "getUsageFromObject source =
     (let hasAny = (promptTokens source \<noteq> None \<or> completionTokens source \<noteq> None
                    \<or> totalTokens source \<noteq> None)
      in if \<not> hasAny then None
         else Some \<lparr>prompt_tokens = (case promptTokens source of Some p \<Rightarrow> p | None \<Rightarrow> 0),
                    completion_tokens = (case completionTokens source of Some c \<Rightarrow> c | None \<Rightarrow> 0),
                    total_tokens =
                      (case totalTokens source of
                         Some t \<Rightarrow> t
                       | None \<Rightarrow>
                           (case (promptTokens source, completionTokens source) of
                              (Some p, Some c) \<Rightarrow> p + c
                            | _ \<Rightarrow> 0))\<rparr>)"

definition zero_usage :: usage where
  "zero_usage = \<lparr>prompt_tokens = 0, completion_tokens = 0, total_tokens = 0\<rparr>"

definition extractUsageFromAiResult :: "obj \<Rightarrow> usage" where
  "extractUsageFromAiResult result =
     (case getUsageFromObject (JObj result) of
        Some direct \<Rightarrow> direct
      | None \<Rightarrow>
          (case (case map_of result ''usage'' of
                   Some directUsage \<Rightarrow>
                     if is_object (Some directUsage) then getUsageFromObject directUsage else None
                 | None \<Rightarrow> None) of
             Some u \<Rightarrow> u
           | None \<Rightarrow>
               (case map_of result ''result'' of
                  Some nested \<Rightarrow>
                    if is_object (Some nested) then
                      (case getUsageFromObject nested of
                         Some nestedDirect \<Rightarrow> nestedDirect
                       | None \<Rightarrow>
                           (case (case field nested ''usage'' of
                                    Some nestedUsage \<Rightarrow>
                                      if is_object (Some nestedUsage)
                                      then getUsageFromObject nestedUsage else None
                                  | None \<Rightarrow> None) of
                              Some u \<Rightarrow> u
                            | None \<Rightarrow> zero_usage))
                    else zero_usage
                | None \<Rightarrow> zero_usage)))"

section \<open>Stream normalizer\<close>

text \<open>
  \<open>String.prototype.split\<close> with a regular expression that cannot match the empty
  string: \<open>f s\<close> is the length of the match at the start of \<open>s\<close>, 0 when there is none.
  The pieces between the matches are returned, the last piece included.
\<close>

function split_re :: "(string \<Rightarrow> nat) \<Rightarrow> string \<Rightarrow> string \<Rightarrow> string list" where
  "split_re f acc [] = [rev acc]"
| "split_re f acc (c # cs) =
     (if 0 < f (c # cs) then rev acc # split_re f [] (drop (f (c # cs) - 1) cs)
      else split_re f (c # acc) cs)"
  by pat_completeness auto
termination
  by (relation "measure (\<lambda>(f, acc, s). length s)") auto

text \<open>The match of \<open>/\r?\n/\<close> and of \<open>/\r?\n\r?\n/\<close> at the start of a text.\<close>

definition newline_len :: "string \<Rightarrow> nat" where
  "newline_len s =
     (case s of
        [] \<Rightarrow> 0
      | c # cs \<Rightarrow>
          if c = CHR 0x0A then 1
          else if c = CHR 0x0D \<and> (case cs of [] \<Rightarrow> False | d # _ \<Rightarrow> d = CHR 0x0A) then 2
          else 0)"

definition blank_line_len :: "string \<Rightarrow> nat" where
  "blank_line_len s =
     (let a = newline_len s in
      if a = 0 then 0
      else let b = newline_len (drop a s) in if b = 0 then 0 else a + b)"

text \<open>
  A backend stream is the finite list of what its reads yield, up to the read that
  reports \<open>done\<close> (the end of the list). One read yields a string, yields bytes, or fails.
  Bytes are held as the text \<open>decoder.decode(value, {stream: true})\<close> contributes for
  them: on well-formed UTF-8 the decoded texts of successive reads concatenate to the
  bytes read, which is all the buffer sees. The removal of a byte-order mark and the
  replacement of malformed sequences by U+FFFD are not modelled. \<open>Fails e\<close> stands for a
  read that rejects with \<open>e\<close> and for a read whose value \<open>decoder.decode\<close> rejects by
  throwing \<open>e\<close> (a value that is neither a string nor a buffer): both leave the \<open>try\<close>
  block through the same \<open>catch\<close>.
\<close>

datatype thrown = Error string | NotAnError

datatype read = Text string | Bytes string | Fails thrown

datatype status = Closed | Errored thrown

record controller =
  enqueued :: "string list"
  clock_reads :: nat

record sse_output =
  frames :: "string list"
  status :: status

text \<open>
  \<open>clock k\<close> is what the \<open>k\<close>-th call of \<open>Date.now()\<close> returns; every chunk payload reads
  the clock once.
\<close>

definition enqueue_chunk :: "string \<Rightarrow> json \<Rightarrow> (nat \<Rightarrow> nat) \<Rightarrow> string option \<Rightarrow> string option \<Rightarrow> controller \<Rightarrow> controller" where
  "enqueue_chunk cid model clock content finishReason st =
     \<lparr>enqueued = enqueued st @ [sseData (createChunkPayload cid model content finishReason (clock (clock_reads st)))],
      clock_reads = Suc (clock_reads st)\<rparr>"

definition emitContent :: "string \<Rightarrow> json \<Rightarrow> (nat \<Rightarrow> nat) \<Rightarrow> string \<Rightarrow> controller \<Rightarrow> controller" where
  "emitContent cid model clock text st =
     (if text = [] then st else enqueue_chunk cid model clock (Some text) None st)"

definition done_frame :: string where
  "done_frame = ''data: [DONE]'' @ [CHR 0x0A, CHR 0x0A]"

definition data_lines :: "string \<Rightarrow> string list" where
  "data_lines part = filter (\<lambda>line. startsWith line ''data:'') (map trim (split_re newline_len [] part))"

definition handle_line :: "string \<Rightarrow> json \<Rightarrow> (nat \<Rightarrow> nat) \<Rightarrow> string \<Rightarrow> controller \<Rightarrow> controller" where
  "handle_line cid model clock line st =
     (let raw = trim (drop 5 line) in
      if raw = [] \<or> raw = ''[DONE]'' then st
      else case JSON_parse raw of
             Some parsed \<Rightarrow>
               (let texts = extractDeltaText parsed
                in if length texts > 0 then fold (emitContent cid model clock) texts st else st)
           | None \<Rightarrow> emitContent cid model clock raw st)"

definition handle_part :: "string \<Rightarrow> json \<Rightarrow> (nat \<Rightarrow> nat) \<Rightarrow> string \<Rightarrow> controller \<Rightarrow> controller" where
  "handle_part cid model clock part st =
     (let lines = data_lines part in
      if length lines = 0 then
        (let fallbacks = extractTextCandidates (Some (JStr part))
         in fold (emitContent cid model clock) fallbacks st)
      else fold (handle_line cid model clock) lines st)"

text \<open>
  The body of \<open>start\<close>: the read loop, the flush of the buffer, the stop chunk and the
  sentinel. \<open>parts.pop()\<close> takes the text after the last blank line.
\<close>

fun pump :: "string \<Rightarrow> json \<Rightarrow> (nat \<Rightarrow> nat) \<Rightarrow> read list \<Rightarrow> string \<Rightarrow> controller \<Rightarrow> sse_output" where
  "pump cid model clock [] buffer st =
     (let st1 = (if trim buffer \<noteq> [] then
                   (let texts = extractTextCandidates (Some (JStr buffer))
                    in if length texts > 0 then fold (emitContent cid model clock) texts st else st)
                 else st);
          st2 = enqueue_chunk cid model clock None (Some ''stop'') st1
      in \<lparr>frames = enqueued st2 @ [done_frame], status = Closed\<rparr>)"
| "pump cid model clock (Fails e # rs) buffer st = \<lparr>frames = enqueued st, status = Errored e\<rparr>"
| "pump cid model clock (Text v # rs) buffer st = pump cid model clock rs buffer (emitContent cid model clock v st)"
| "pump cid model clock (Bytes v # rs) buffer st =
     (let parts = split_re blank_line_len [] (buffer @ v);
          buffer' = (if parts = [] then [] else last parts)
      in pump cid model clock rs buffer' (fold (handle_part cid model clock) (butlast parts) st))"

definition toOpenAiSseFromAiStream :: "read list \<Rightarrow> string \<Rightarrow> json \<Rightarrow> (nat \<Rightarrow> nat) \<Rightarrow> sse_output" where
  "toOpenAiSseFromAiStream aiStream cid model clock =
     pump cid model clock aiStream [] \<lparr>enqueued = [], clock_reads = 0\<rparr>"

section \<open>Completion responder\<close>

definition DEFAULT_MODEL :: string where
  "DEFAULT_MODEL = ''@cf/meta/llama-3.1-8b-instruct''"

text \<open>
  What \<open>c.env.AI.run\<close> resolves to: a \<open>ReadableStream\<close>, an object whose \<open>response\<close>
  field is a \<open>ReadableStream\<close>, or a plain object; or the call rejects.
\<close>

datatype ai_result = StreamResult "read list" | ResponseStream "read list" | PlainResult obj

datatype ai_outcome = Resolves ai_result | Rejects thrown

text \<open>
  The surroundings of one request: the clock, the text
  \<open>Math.random().toString(36).slice(2, 10)\<close> and the backend binding.
\<close>

record env =
  now :: "nat \<Rightarrow> nat"
  random_suffix :: string
  AI_run :: "json \<Rightarrow> json \<Rightarrow> ai_outcome"

text \<open>
  A response: \<open>c.json(body, status)\<close>, a streamed response with its headers and its body,
  or an exception that leaves the handler. The second component of the handler's result
  lists the calls of \<open>AI.run\<close> it made, each with its model and inputs.
\<close>

datatype http_response =
    JsonResponse nat json
  | EventStream "(string \<times> string) list" sse_output
  | Unhandled

definition sse_headers :: "(string \<times> string) list" where
  "sse_headers =
     [(''content-type'', ''text/event-stream; charset=utf-8''),
      (''cache-control'', ''no-cache, no-transform''),
      (''connection'', ''keep-alive'')]"

definition createOpenAIError :: "string \<Rightarrow> nat \<times> json" where
  "createOpenAIError message =
     (400, JObj [(''error'', JObj [(''message'', JStr message),
                                   (''type'', JStr ''invalid_request_error''),
                                   (''param'', JNull),
                                   (''code'', JNull)])])"

definition invalid_request :: "string \<Rightarrow> http_response" where
  "invalid_request message = (case createOpenAIError message of (st, body) \<Rightarrow> JsonResponse st body)"

definition server_error :: "thrown \<Rightarrow> http_response" where
  "server_error e =
     JsonResponse 500
       (JObj [(''error'', JObj [(''message'', JStr (case e of Error m \<Rightarrow> m | NotAnError \<Rightarrow> ''Workers AI call failed.'')),
                                (''type'', JStr ''server_error''),
                                (''param'', JNull),
                                (''code'', JNull)])])"

text \<open>
  The predicate of \<open>messages.some\<close>:
  \<open>typeof message?.content !== 'string' || !message.content.trim() || !message.role\<close>.
\<close>

definition invalid_message :: "json \<Rightarrow> bool" where
  "invalid_message message =
     (case (case message of JNull \<Rightarrow> None | _ \<Rightarrow> field message ''content'') of
        Some (JStr content) \<Rightarrow> trim content = [] \<or> \<not> truthy (field message ''role'')
      | _ \<Rightarrow> True)"

text \<open>
  The fields and the JSON text of what a non-streaming call returned. A
  \<open>ReadableStream\<close> has no enumerable property of its own.
\<close>

fun result_fields :: "ai_result \<Rightarrow> obj" where
  "result_fields (PlainResult fs) = fs"
| "result_fields (StreamResult rs) = []"
| "result_fields (ResponseStream rs) = [(''response'', JObj [])]"

definition usage_json :: "usage \<Rightarrow> json" where
  "usage_json u =
     JObj [(''prompt_tokens'', JNum (Fin (prompt_tokens u))),
           (''completion_tokens'', JNum (Fin (completion_tokens u))),
           (''total_tokens'', JNum (Fin (total_tokens u)))]"

text \<open>The sentinel as the fallback branch of the handler writes it.\<close>

definition fallback_done_frame :: string where
  "fallback_done_frame = ''data: [DONE]'' @ [CHR 0x5C, CHR ''n'', CHR 0x5C, CHR ''n'']"

text \<open>
  The handler of \<open>POST /v1/chat/completions\<close>, as it runs once the authorisation
  middleware has passed the request on. Its argument is what \<open>c.req.json()\<close> gives:
  \<open>None\<close> when the body is not JSON. \<open>request_model\<close> is \<open>body.model ?? DEFAULT_MODEL\<close> and
  \<open>request_messages\<close> is \<open>Array.isArray(body.messages) ? body.messages : []\<close>, for a body
  that is not null; on a null body the first property access throws outside the \<open>try\<close>.
\<close>

definition request_model :: "json \<Rightarrow> json" where
  "request_model body =
     (case field body ''model'' of
        None \<Rightarrow> JStr DEFAULT_MODEL
      | Some JNull \<Rightarrow> JStr DEFAULT_MODEL
      | Some m \<Rightarrow> m)"

definition request_messages :: "json \<Rightarrow> json list" where
  "request_messages body = (case field body ''messages'' of Some (JArr ms) \<Rightarrow> ms | _ \<Rightarrow> [])"

definition chat_completions :: "env \<Rightarrow> json option \<Rightarrow> http_response \<times> (json \<times> json) list" where
  "chat_completions e parsed_body =
     (case parsed_body of
        None \<Rightarrow> (invalid_request ''Invalid JSON body.'', [])
      | Some JNull \<Rightarrow> (Unhandled, [])
      | Some body \<Rightarrow>
          let model = request_model body;
              messages = request_messages body;
              requestId = ''chatcmpl-'' @ show_nat (now e 0) @ ''-'' @ random_suffix e;
              clock = (\<lambda>k. now e (Suc k))
          in if length messages = 0 then
               (invalid_request ''`messages` must be a non-empty array.'', [])
             else if list_ex invalid_message messages then
               (invalid_request ''Each message must include string `role` and non-empty string `content`.'', [])
             else if truthy (field body ''stream'') then
               (let inputs = JObj [(''messages'', JArr messages), (''stream'', JBool True)]
                in case AI_run e model inputs of
                     Rejects err \<Rightarrow> (server_error err, [(model, inputs)])
                   | Resolves (StreamResult aiStream) \<Rightarrow>
                       (EventStream sse_headers (toOpenAiSseFromAiStream aiStream requestId model clock),
                        [(model, inputs)])
                   | Resolves (ResponseStream aiStream) \<Rightarrow>
                       (EventStream sse_headers (toOpenAiSseFromAiStream aiStream requestId model clock),
                        [(model, inputs)])
                   | Resolves (PlainResult streamedResult) \<Rightarrow>
                       (let fallbackText = extractTextFromAiResult streamedResult
                        in (EventStream sse_headers
                              \<lparr>frames =
                                 [sseData (createChunkPayload requestId model (Some fallbackText) None (clock 0)),
                                  sseData (createChunkPayload requestId model None (Some ''stop'') (clock 1)),
                                  fallback_done_frame],
                               status = Closed\<rparr>,
                            [(model, inputs)])))
             else
               (let inputs = JObj [(''messages'', JArr messages)]
                in case AI_run e model inputs of
                     Rejects err \<Rightarrow> (server_error err, [(model, inputs)])
                   | Resolves result \<Rightarrow>
                       (let content = extractTextFromAiResult (result_fields result);
                            usage = extractUsageFromAiResult (result_fields result);
                            created = clock 0 div 1000
                        in (JsonResponse 200
                              (JObj [(''id'', JStr requestId),
                                     (''object'', JStr ''chat.completion''),
                                     (''created'', JNum (Fin (of_nat created))),
                                     (''model'', model),
                                     (''choices'',
                                        JArr [JObj [(''index'', JNum (Fin 0)),
                                                    (''message'', JObj [(''role'', JStr ''assistant''),
                                                                        (''content'', JStr content)]),
                                                    (''finish_reason'', JStr ''stop'')]]),
                                     (''usage'', usage_json usage)]),
                            [(model, inputs)]))))"

section \<open>The specification's accounts of the extraction engines\<close>

fun first_success :: "'a option list \<Rightarrow> 'a option" where
  "first_success [] = None"
| "first_success (Some x # xs) = Some x"
| "first_success (None # xs) = first_success xs"







definition object_at :: "json option \<Rightarrow> json list" where
  "object_at v = (case v of Some (JObj fs) \<Rightarrow> [JObj fs] | Some (JArr xs) \<Rightarrow> [JArr xs] | _ \<Rightarrow> [])"






section \<open>The stream normalizer without its clock\<close>

text \<open>
  The texts the normalizer hands to \<open>emitContent\<close>, in order, and how the reads
  ended: a function of the reads alone, following the specification's account of the
  normalizer read by read.
\<close>

definition line_texts :: "string \<Rightarrow> string list" where
  "line_texts line =
     (let raw = trim (drop 5 line) in
      if raw = [] \<or> raw = ''[DONE]'' then []
      else case JSON_parse raw of Some parsed \<Rightarrow> extractDeltaText parsed | None \<Rightarrow> [raw])"

definition part_texts :: "string \<Rightarrow> string list" where
  "part_texts part =
     (if data_lines part = [] then extractTextCandidates (Some (JStr part))
      else concat (map line_texts (data_lines part)))"

fun stream_texts :: "read list \<Rightarrow> string \<Rightarrow> string list \<times> thrown option" where
  "stream_texts [] buffer =
     ((if trim buffer \<noteq> [] then extractTextCandidates (Some (JStr buffer)) else []), None)"
| "stream_texts (Fails e # rs) buffer = ([], Some e)"
| "stream_texts (Text v # rs) buffer =
     (case stream_texts rs buffer of (ts, ending) \<Rightarrow> (v # ts, ending))"
| "stream_texts (Bytes v # rs) buffer =
     (let parts = split_re blank_line_len [] (buffer @ v);
          buffer' = (if parts = [] then [] else last parts)
      in case stream_texts rs buffer' of
           (ts, ending) \<Rightarrow> (concat (map part_texts (butlast parts)) @ ts, ending))"

definition nonempty :: "string list \<Rightarrow> string list" where
  "nonempty ts = filter (\<lambda>t. t \<noteq> []) ts"

text \<open>The events of the output: content deltas, then the stop event unless a read failed.\<close>

definition stream_events :: "read list \<Rightarrow> (string option \<times> string option) list" where
  "stream_events rs =
     map (\<lambda>t. (Some t, None)) (nonempty (fst (stream_texts rs [])))
     @ (case snd (stream_texts rs []) of None \<Rightarrow> [(None, Some ''stop'')] | Some e \<Rightarrow> [])"

definition stream_sentinel :: "read list \<Rightarrow> string list" where
  "stream_sentinel rs = (case snd (stream_texts rs []) of None \<Rightarrow> [done_frame] | Some e \<Rightarrow> [])"

definition stream_status :: "read list \<Rightarrow> status" where
  "stream_status rs = (case snd (stream_texts rs []) of None \<Rightarrow> Closed | Some e \<Rightarrow> Errored e)"

fun chunk_frames :: "string \<Rightarrow> json \<Rightarrow> (nat \<Rightarrow> nat) \<Rightarrow> nat \<Rightarrow> (string option \<times> string option) list \<Rightarrow> string list" where
  "chunk_frames cid model clock k [] = []"
| "chunk_frames cid model clock k ((content, finishReason) # evs) =
     sseData (createChunkPayload cid model content finishReason (clock k))
     # chunk_frames cid model clock (Suc k) evs"

text \<open>How the body of \<open>start\<close> ends, given how the reads ended.\<close>

definition finish :: "string \<Rightarrow> json \<Rightarrow> (nat \<Rightarrow> nat) \<Rightarrow> thrown option \<Rightarrow> controller \<Rightarrow> sse_output" where
  "finish cid model clock ending st =
     (case ending of
        None \<Rightarrow>
          \<lparr>frames = enqueued (enqueue_chunk cid model clock None (Some ''stop'') st) @ [done_frame],
           status = Closed\<rparr>
      | Some e \<Rightarrow> \<lparr>frames = enqueued st, status = Errored e\<rparr>)"

text \<open>The inputs the claims about the normalizer name, and a clock that advances one second per reading.\<close>

definition second_clock :: "nat \<Rightarrow> nat" where
  "second_clock k = 1000 * k"

definition blank_lines :: "string list" where
  "blank_lines = [[CHR 0x0A, CHR 0x0A], [CHR 0x0D, CHR 0x0A, CHR 0x0D, CHR 0x0A],
                  [CHR 0x0A, CHR 0x0D, CHR 0x0A], [CHR 0x0D, CHR 0x0A, CHR 0x0A]]"

definition tok_event :: "string \<Rightarrow> string" where
  "tok_event nl = ''data: {\"response\":\"tok\"}'' @ nl"

definition x_event :: string where
  "x_event = ''data: {\"response\":\"x\"}'' @ [CHR 0x0A, CHR 0x0A]"

section \<open>The invalid-request error\<close>

definition invalid_request_body :: "string \<Rightarrow> json" where
  "invalid_request_body message =
     JObj [(''error'', JObj [(''message'', JStr message), (''type'', JStr ''invalid_request_error''),
                             (''param'', JNull), (''code'', JNull)])]"

section \<open>Text extraction\<close>

lemma first_success_single [simp]: "first_success [x] = x"
  by (cases x) simp_all








section \<open>Usage extraction: the locations and the triple\<close>


lemma object_at_None [simp]: "object_at None = []"
  by (simp add: object_at_def)

















section \<open>Stream normalizer: frames from texts\<close>

lemma chunk_frames_append:
  "chunk_frames cid model clock k (xs @ ys) =
     chunk_frames cid model clock k xs @ chunk_frames cid model clock (k + length xs) ys"
  by (induction xs arbitrary: k) auto

lemma fold_emitContent:
  "fold (emitContent cid model clock) ts st =
     \<lparr>enqueued = enqueued st @ chunk_frames cid model clock (clock_reads st)
                                 (map (\<lambda>t. (Some t, None)) (nonempty ts)),
      clock_reads = clock_reads st + length (nonempty ts)\<rparr>"
proof (induction ts arbitrary: st)
  case Nil
  then show ?case by (simp add: nonempty_def)
next
  case (Cons t ts)
  then show ?case
    by (simp add: nonempty_def emitContent_def enqueue_chunk_def)
qed

lemma fold_emitContent_append:
  "fold (emitContent cid model clock) (xs @ ys) st =
     fold (emitContent cid model clock) ys (fold (emitContent cid model clock) xs st)"
  by simp

lemma handle_line_texts:
  "handle_line cid model clock line st = fold (emitContent cid model clock) (line_texts line) st"
  by (simp add: handle_line_def line_texts_def Let_def split: option.splits)

lemma fold_handle_line:
  "fold (handle_line cid model clock) lines st =
     fold (emitContent cid model clock) (concat (map line_texts lines)) st"
  by (induction lines arbitrary: st) (simp_all add: handle_line_texts)

lemma handle_part_texts:
  "handle_part cid model clock part st = fold (emitContent cid model clock) (part_texts part) st"
  by (simp add: handle_part_def part_texts_def Let_def fold_handle_line)

lemma fold_handle_part:
  "fold (handle_part cid model clock) parts st =
     fold (emitContent cid model clock) (concat (map part_texts parts)) st"
  by (induction parts arbitrary: st) (simp_all add: handle_part_texts)

lemma pump_texts:
  "pump cid model clock rs buffer st =
     finish cid model clock (snd (stream_texts rs buffer))
       (fold (emitContent cid model clock) (fst (stream_texts rs buffer)) st)"
proof (induction rs arbitrary: buffer st)
  case Nil
  show ?case by (simp add: finish_def Let_def)
next
  case (Cons r rs)
  show ?case
  proof (cases r)
    case (Text v)
    then show ?thesis by (simp add: Cons.IH split: prod.splits)
  next
    case (Bytes v)
    then show ?thesis
      by (simp add: Cons.IH Let_def fold_handle_part split: prod.splits)
  next
    case (Fails e)
    then show ?thesis by (simp add: finish_def)
  qed
qed

lemma normalizer_events:
  "toOpenAiSseFromAiStream rs cid model clock =
     \<lparr>frames = chunk_frames cid model clock 0 (stream_events rs) @ stream_sentinel rs,
      status = stream_status rs\<rparr>"
  unfolding toOpenAiSseFromAiStream_def pump_texts fold_emitContent stream_events_def
    stream_sentinel_def stream_status_def finish_def
  by (simp add: chunk_frames_append enqueue_chunk_def split: option.splits)

section \<open>Stream normalizer: framed events in, frames out\<close>

lemma tok_event_split:
  "list_all (\<lambda>nl. split_re blank_line_len [] (tok_event nl) = [tok_event [], []]) blank_lines"
  by code_simp

lemma tok_event_texts: "part_texts (tok_event []) = [''tok'']"
  by code_simp

lemma stream_texts_tok_event:
  assumes "nl \<in> set blank_lines"
  shows "stream_texts (Bytes (tok_event nl) # rs) [] =
           (''tok'' # fst (stream_texts rs []), snd (stream_texts rs []))"
proof -
  from assms tok_event_split have "split_re blank_line_len [] (tok_event nl) = [tok_event [], []]"
    by (simp add: list_all_iff)
  then show ?thesis
    by (simp add: tok_event_texts split: prod.splits)
qed

lemma stream_texts_end: "stream_texts [] [] = ([], None)"
  by code_simp

text \<open>
  Claim C1. A backend stream of exactly three byte reads, each the text
  \<open>data: {"response":"tok"}\<close> followed by a blank line (in any of the four spellings
  the splitter accepts), is normalized to exactly three content frames whose delta is
  \<open>{content: "tok"}\<close>, then one stop chunk with an empty delta and
  \<open>finish_reason\<close> \<open>"stop"\<close>, then the sentinel \<open>data: [DONE]\<close> with its blank line, in
  this order, and the output is closed.
\<close>

theorem three_events_three_frames:
  "(\<forall>n1 \<in> set blank_lines. \<forall>n2 \<in> set blank_lines. \<forall>n3 \<in> set blank_lines.
      toOpenAiSseFromAiStream [Bytes (tok_event n1), Bytes (tok_event n2), Bytes (tok_event n3)] cid model clock =
        \<lparr>frames = [sseData (createChunkPayload cid model (Some ''tok'') None (clock 0)),
                   sseData (createChunkPayload cid model (Some ''tok'') None (clock 1)),
                   sseData (createChunkPayload cid model (Some ''tok'') None (clock 2)),
                   sseData (createChunkPayload cid model None (Some ''stop'') (clock 3)),
                   done_frame],
         status = Closed\<rparr>)
   \<and> field (createChunkPayload cid model (Some ''tok'') None t) ''choices'' =
       Some (JArr [JObj [(''index'', JNum (Fin 0)),
                         (''delta'', JObj [(''content'', JStr ''tok'')]),
                         (''finish_reason'', JNull)]])
   \<and> field (createChunkPayload cid model None (Some ''stop'') t) ''choices'' =
       Some (JArr [JObj [(''index'', JNum (Fin 0)),
                         (''delta'', JObj []),
                         (''finish_reason'', JStr ''stop'')]])"
proof (intro conjI ballI)
  fix n1 n2 n3
  assume n: "n1 \<in> set blank_lines" "n2 \<in> set blank_lines" "n3 \<in> set blank_lines"
  have texts: "stream_texts [Bytes (tok_event n1), Bytes (tok_event n2), Bytes (tok_event n3)] []
                 = ([''tok'', ''tok'', ''tok''], None)"
    by (simp only: stream_texts_tok_event [OF n(1)] stream_texts_tok_event [OF n(2)]
        stream_texts_tok_event [OF n(3)] stream_texts_end fst_conv snd_conv)
  show "toOpenAiSseFromAiStream [Bytes (tok_event n1), Bytes (tok_event n2), Bytes (tok_event n3)] cid model clock =
        \<lparr>frames = [sseData (createChunkPayload cid model (Some ''tok'') None (clock 0)),
                   sseData (createChunkPayload cid model (Some ''tok'') None (clock 1)),
                   sseData (createChunkPayload cid model (Some ''tok'') None (clock 2)),
                   sseData (createChunkPayload cid model None (Some ''stop'') (clock 3)),
                   done_frame],
         status = Closed\<rparr>"
    by (simp add: normalizer_events stream_events_def stream_sentinel_def stream_status_def
        texts nonempty_def numeral_3_eq_3 numeral_2_eq_2 del: stream_texts.simps)
qed (simp_all add: createChunkPayload_def)

theorem three_events_three_frames_witness:
  "toOpenAiSseFromAiStream
     [Bytes (''data: {\"response\":\"tok\"}'' @ [CHR 0x0A, CHR 0x0A]),
      Bytes (''data: {\"response\":\"tok\"}'' @ [CHR 0x0A, CHR 0x0A]),
      Bytes (''data: {\"response\":\"tok\"}'' @ [CHR 0x0A, CHR 0x0A])]
     ''chatcmpl-1'' (JStr ''m'') (\<lambda>k. 1000 * k) =
   \<lparr>frames =
      [''data: {\"id\":\"chatcmpl-1\",\"object\":\"chat.completion.chunk\",\"created\":0,\"model\":\"m\",\"choices\":[{\"index\":0,\"delta\":{\"content\":\"tok\"},\"finish_reason\":null}]}'' @ [CHR 0x0A, CHR 0x0A],
       ''data: {\"id\":\"chatcmpl-1\",\"object\":\"chat.completion.chunk\",\"created\":1,\"model\":\"m\",\"choices\":[{\"index\":0,\"delta\":{\"content\":\"tok\"},\"finish_reason\":null}]}'' @ [CHR 0x0A, CHR 0x0A],
       ''data: {\"id\":\"chatcmpl-1\",\"object\":\"chat.completion.chunk\",\"created\":2,\"model\":\"m\",\"choices\":[{\"index\":0,\"delta\":{\"content\":\"tok\"},\"finish_reason\":null}]}'' @ [CHR 0x0A, CHR 0x0A],
       ''data: {\"id\":\"chatcmpl-1\",\"object\":\"chat.completion.chunk\",\"created\":3,\"model\":\"m\",\"choices\":[{\"index\":0,\"delta\":{},\"finish_reason\":\"stop\"}]}'' @ [CHR 0x0A, CHR 0x0A],
       ''data: [DONE]'' @ [CHR 0x0A, CHR 0x0A]],
    status = Closed\<rparr>"
proof -
  have f0: "sseData (createChunkPayload ''chatcmpl-1'' (JStr ''m'') (Some ''tok'') None 0) =
      ''data: {\"id\":\"chatcmpl-1\",\"object\":\"chat.completion.chunk\",\"created\":0,\"model\":\"m\",\"choices\":[{\"index\":0,\"delta\":{\"content\":\"tok\"},\"finish_reason\":null}]}'' @ [CHR 0x0A, CHR 0x0A]"
    by code_simp
  have f1: "sseData (createChunkPayload ''chatcmpl-1'' (JStr ''m'') (Some ''tok'') None 1000) =
      ''data: {\"id\":\"chatcmpl-1\",\"object\":\"chat.completion.chunk\",\"created\":1,\"model\":\"m\",\"choices\":[{\"index\":0,\"delta\":{\"content\":\"tok\"},\"finish_reason\":null}]}'' @ [CHR 0x0A, CHR 0x0A]"
    by code_simp
  have f2: "sseData (createChunkPayload ''chatcmpl-1'' (JStr ''m'') (Some ''tok'') None 2000) =
      ''data: {\"id\":\"chatcmpl-1\",\"object\":\"chat.completion.chunk\",\"created\":2,\"model\":\"m\",\"choices\":[{\"index\":0,\"delta\":{\"content\":\"tok\"},\"finish_reason\":null}]}'' @ [CHR 0x0A, CHR 0x0A]"
    by code_simp
  have f3: "sseData (createChunkPayload ''chatcmpl-1'' (JStr ''m'') None (Some ''stop'') 3000) =
      ''data: {\"id\":\"chatcmpl-1\",\"object\":\"chat.completion.chunk\",\"created\":3,\"model\":\"m\",\"choices\":[{\"index\":0,\"delta\":{},\"finish_reason\":\"stop\"}]}'' @ [CHR 0x0A, CHR 0x0A]"
    by code_simp
  have nl: "[CHR 0x0A, CHR 0x0A] \<in> set blank_lines"
    by (simp add: blank_lines_def)
  from three_events_three_frames [of "''chatcmpl-1''" "JStr ''m''" "\<lambda>k. 1000 * k"] nl
  have "toOpenAiSseFromAiStream
          [Bytes (tok_event [CHR 0x0A, CHR 0x0A]), Bytes (tok_event [CHR 0x0A, CHR 0x0A]),
           Bytes (tok_event [CHR 0x0A, CHR 0x0A])] ''chatcmpl-1'' (JStr ''m'') (\<lambda>k. 1000 * k) =
        \<lparr>frames = [sseData (createChunkPayload ''chatcmpl-1'' (JStr ''m'') (Some ''tok'') None (1000 * 0)),
                   sseData (createChunkPayload ''chatcmpl-1'' (JStr ''m'') (Some ''tok'') None (1000 * 1)),
                   sseData (createChunkPayload ''chatcmpl-1'' (JStr ''m'') (Some ''tok'') None (1000 * 2)),
                   sseData (createChunkPayload ''chatcmpl-1'' (JStr ''m'') None (Some ''stop'') (1000 * 3)),
                   done_frame],
         status = Closed\<rparr>"
    by blast
  then show ?thesis
    by (simp add: tok_event_def f0 f1 f2 f3 done_frame_def)
qed

subsection \<open>Reads that cut an event\<close>

text \<open>Facts about the two separators.\<close>

lemma newline_len_cases:
  "newline_len s = 0 \<or> (newline_len s = 1 \<and> (\<exists>r. s = CHR 0x0A # r))
   \<or> (newline_len s = 2 \<and> (\<exists>r. s = CHR 0x0D # CHR 0x0A # r))"
  by (auto simp: newline_len_def split: list.splits)

lemma newline_len_le: "newline_len s \<le> length s"
  by (auto simp: newline_len_def split: list.splits)

lemma newline_len_append: "0 < newline_len s \<Longrightarrow> newline_len (s @ y) = newline_len s"
  by (auto simp: newline_len_def split: list.splits if_splits)

lemma blank_line_len_le: "blank_line_len s \<le> length s"
  using newline_len_le [of s] newline_len_le [of "drop (newline_len s) s"]
  by (auto simp: blank_line_len_def Let_def)

lemma blank_line_len_append:
  assumes "0 < blank_line_len s"
  shows "blank_line_len (s @ y) = blank_line_len s"
proof -
  from assms have a: "0 < newline_len s" and b: "0 < newline_len (drop (newline_len s) s)"
    by (auto simp: blank_line_len_def Let_def split: if_splits)
  have "newline_len (s @ y) = newline_len s"
    using a by (rule newline_len_append)
  moreover have "drop (newline_len s) (s @ y) = drop (newline_len s) s @ y"
    using newline_len_le [of s] by simp
  ultimately show ?thesis
    using newline_len_append [OF b, of y] a b by (simp add: blank_line_len_def Let_def)
qed

text \<open>A text that only starts a separator holds no separator at any later position.\<close>

lemma separator_prefix_cases:
  assumes "blank_line_len s = 0" and "0 < blank_line_len (s @ y)"
  shows "s \<in> {[], [CHR 0x0A], [CHR 0x0D], [CHR 0x0D, CHR 0x0A], [CHR 0x0A, CHR 0x0D],
              [CHR 0x0D, CHR 0x0A, CHR 0x0D]}"
proof -
  have short: "length s < 4"
  proof (rule ccontr)
    assume "\<not> length s < 4"
    then have l: "4 \<le> length s" by simp
    from assms(2) blank_line_len_le newline_len_le have "blank_line_len (s @ y) \<le> 4"
      using newline_len_cases [of "s @ y"] newline_len_cases [of "drop (newline_len (s @ y)) (s @ y)"]
      by (auto simp: blank_line_len_def Let_def split: if_splits)
    obtain a b c d r where s: "s = a # b # c # d # r"
      using l by (cases s; cases "tl s"; cases "tl (tl s)"; cases "tl (tl (tl s))") auto
    from assms show False
      unfolding s by (auto simp: blank_line_len_def newline_len_def Let_def split: if_splits list.splits)
  qed
  then consider "s = []" | a where "s = [a]" | a b where "s = [a, b]" | a b c where "s = [a, b, c]"
    by (cases s; cases "tl s"; cases "tl (tl s)"; cases "tl (tl (tl s))") auto
  then show ?thesis
  proof cases
    case 1
    then show ?thesis by simp
  next
    case 2
    with assms show ?thesis
      by (auto simp: blank_line_len_def newline_len_def Let_def split: if_splits list.splits)
  next
    case 3
    with assms show ?thesis
      by (auto simp: blank_line_len_def newline_len_def Let_def split: if_splits list.splits)
  next
    case 4
    with assms show ?thesis
      by (auto simp: blank_line_len_def newline_len_def Let_def split: if_splits list.splits)
  qed
qed

lemma no_sep_Cons:
  "(\<forall>i. f (drop i (c # cs)) = (0::nat)) \<longleftrightarrow> f (c # cs) = 0 \<and> (\<forall>i. f (drop i cs) = 0)"
proof
  assume a: "\<forall>i. f (drop i (c # cs)) = 0"
  from a [rule_format, of 0] have "f (c # cs) = 0" by simp
  moreover have "f (drop i cs) = 0" for i
    using a [rule_format, of "Suc i"] by simp
  ultimately show "f (c # cs) = 0 \<and> (\<forall>i. f (drop i cs) = 0)" by simp
next
  assume a: "f (c # cs) = 0 \<and> (\<forall>i. f (drop i cs) = 0)"
  show "\<forall>i. f (drop i (c # cs)) = 0"
  proof
    fix i
    show "f (drop i (c # cs)) = 0"
      using a by (cases i) simp_all
  qed
qed

lemma blank_line_len_Nil: "blank_line_len [] = 0"
  by (simp add: blank_line_len_def newline_len_def)

lemma no_later_separator:
  assumes "blank_line_len s = 0" and "0 < blank_line_len (s @ y)"
  shows "\<forall>i. blank_line_len (drop i s) = 0"
proof -
  have e: "\<forall>i. blank_line_len (drop i []) = 0"
    by (simp add: blank_line_len_Nil)
  have v: "blank_line_len [CHR 0x0A] = 0" "blank_line_len [CHR 0x0D] = 0"
    "blank_line_len [CHR 0x0D, CHR 0x0A] = 0" "blank_line_len [CHR 0x0A, CHR 0x0D] = 0"
    "blank_line_len [CHR 0x0D, CHR 0x0A, CHR 0x0D] = 0"
    by (simp_all add: blank_line_len_def newline_len_def)
  from separator_prefix_cases [OF assms] show ?thesis
    by (elim insertE emptyE) (simp_all only: no_sep_Cons v e simp_thms)
qed

lemma split_re_no_separator:
  "\<forall>i. f (drop i s) = 0 \<Longrightarrow> split_re f acc s = [rev acc @ s]"
proof (induction s arbitrary: acc)
  case Nil
  then show ?case by simp
next
  case (Cons c cs)
  from Cons.prems no_sep_Cons [of f c cs] have "f (c # cs) = 0" and "\<forall>i. f (drop i cs) = 0"
    by blast+
  with Cons.IH [of "c # acc"] show ?case by simp
qed

text \<open>
  Scanning a text again from the start of the current piece finds nothing new, when no
  separator starts inside the piece.
\<close>

lemma split_re_skip:
  "(\<forall>i < length pre. f (drop i pre @ rest) = 0) \<Longrightarrow>
     split_re f acc (pre @ rest) = split_re f (rev pre @ acc) rest"
proof (induction pre arbitrary: acc)
  case Nil
  then show ?case by simp
next
  case (Cons p ps)
  from Cons.prems [rule_format, of 0] have z: "f (p # ps @ rest) = 0"
    by simp
  have "\<forall>i < length ps. f (drop i ps @ rest) = 0"
  proof (intro allI impI)
    fix i
    assume "i < length ps"
    with Cons.prems [rule_format, of "Suc i"] show "f (drop i ps @ rest) = 0"
      by simp
  qed
  from Cons.IH [OF this, of "p # acc"] z show ?case
    by simp
qed

lemma split_re_rescan:
  "(\<forall>i < length acc. f (drop i (rev acc) @ rest) = 0) \<Longrightarrow>
     split_re f [] (rev acc @ rest) = split_re f acc rest"
  using split_re_skip [of "rev acc" f rest "[]"] by simp

lemma split_re_nonempty: "split_re f acc s \<noteq> []"
  by (induction f acc s rule: split_re.induct) auto

text \<open>
  Splitting a text that arrives in two parts: the complete events of the first part, then
  the split of what the first part left over followed by the second part.
\<close>

lemma split_blank_line_append:
  "(\<forall>i < length acc. blank_line_len (drop i (rev acc) @ x @ y) = 0) \<Longrightarrow>
     split_re blank_line_len acc (x @ y) =
       butlast (split_re blank_line_len acc x)
       @ split_re blank_line_len [] (last (split_re blank_line_len acc x) @ y)"
proof (induction blank_line_len acc x rule: split_re.induct)
  case (1 acc)
  then show ?case
    using split_re_rescan [of acc blank_line_len y] by simp
next
  case (2 acc c cs)
  let ?f = blank_line_len
  consider (found) "0 < ?f (c # cs)"
    | (none) "?f (c # cs) = 0" "?f ((c # cs) @ y) = 0"
    | (straddle) "?f (c # cs) = 0" "0 < ?f ((c # cs) @ y)"
    by fastforce
  then show ?case
  proof cases
    case found
    let ?n = "?f (c # cs)"
    have n: "?f ((c # cs) @ y) = ?n"
      using found by (rule blank_line_len_append)
    have le: "?n - 1 \<le> length cs"
      using blank_line_len_le [of "c # cs"] by simp
    then have d: "drop (?n - 1) (cs @ y) = drop (?n - 1) cs @ y"
      by simp
    have ih: "split_re ?f [] (drop (?n - 1) cs @ y) =
        butlast (split_re ?f [] (drop (?n - 1) cs))
        @ split_re ?f [] (last (split_re ?f [] (drop (?n - 1) cs)) @ y)"
      using "2.hyps"(1) [OF found] by simp
    have lhs: "split_re ?f acc ((c # cs) @ y) = rev acc # split_re ?f [] (drop (?n - 1) cs @ y)"
      using found n d by simp
    have rhs: "split_re ?f acc (c # cs) = rev acc # split_re ?f [] (drop (?n - 1) cs)"
      using found by simp
    show ?thesis
      unfolding lhs rhs ih by (simp add: split_re_nonempty)
  next
    case none
    have pre: "\<forall>i < length (c # acc). ?f (drop i (rev (c # acc)) @ cs @ y) = 0"
    proof (intro allI impI)
      fix i
      assume i: "i < length (c # acc)"
      show "?f (drop i (rev (c # acc)) @ cs @ y) = 0"
      proof (cases "i < length acc")
        case True
        with "2.prems" [rule_format, of i] show ?thesis by simp
      next
        case False
        with i have "i = length acc" by simp
        with none(2) show ?thesis by simp
      qed
    qed
    from none(1) have nf: "\<not> 0 < ?f (c # cs)" by simp
    have "split_re ?f (c # acc) (cs @ y) =
        butlast (split_re ?f (c # acc) cs) @ split_re ?f [] (last (split_re ?f (c # acc) cs) @ y)"
      using "2.hyps"(2) [OF nf pre] .
    with none show ?thesis by simp
  next
    case straddle
    have "split_re ?f acc (c # cs) = [rev acc @ c # cs]"
      using no_later_separator [OF straddle] by (rule split_re_no_separator)
    moreover have "split_re ?f [] (rev acc @ (c # cs) @ y) = split_re ?f acc ((c # cs) @ y)"
      using "2.prems" by (intro split_re_rescan) simp
    ultimately show ?thesis by simp
  qed
qed

lemma split_two_reads:
  "split_re blank_line_len [] (buffer @ a @ b) =
     butlast (split_re blank_line_len [] (buffer @ a))
     @ split_re blank_line_len [] (last (split_re blank_line_len [] (buffer @ a)) @ b)"
  using split_blank_line_append [of "[]" "buffer @ a" b] by simp

lemma stream_texts_two_reads:
  "stream_texts (Bytes a # Bytes b # rs) buffer = stream_texts (Bytes (a @ b) # rs) buffer"
proof -
  let ?p1 = "split_re blank_line_len [] (buffer @ a)"
  let ?p2 = "split_re blank_line_len [] (last ?p1 @ b)"
  have p: "split_re blank_line_len [] (buffer @ a @ b) = butlast ?p1 @ ?p2"
    by (rule split_two_reads)
  have ne: "?p1 \<noteq> []" "?p2 \<noteq> []"
    by (simp_all add: split_re_nonempty)
  then have bl: "butlast (butlast ?p1 @ ?p2) = butlast ?p1 @ butlast ?p2"
    and la: "last (butlast ?p1 @ ?p2) = last ?p2"
    by (simp_all add: butlast_append)
  show ?thesis
    using ne by (simp add: Let_def p bl la split_re_nonempty split: prod.splits)
qed

lemma stream_texts_split_read:
  "stream_texts (pre @ Bytes a # Bytes b # post) buffer = stream_texts (pre @ Bytes (a @ b) # post) buffer"
proof (induction pre arbitrary: buffer)
  case Nil
  show ?case using stream_texts_two_reads by simp
next
  case (Cons r rs)
  then show ?case
    by (cases r) (simp_all add: Let_def)
qed

lemma same_texts_same_output:
  "stream_texts rs [] = stream_texts rs' [] \<Longrightarrow>
     toOpenAiSseFromAiStream rs cid model clock = toOpenAiSseFromAiStream rs' cid model clock"
  by (simp add: normalizer_events stream_events_def stream_sentinel_def stream_status_def)

lemma x_event_texts: "stream_texts [Bytes x_event] [] = ([''x''], None)"
  by code_simp

lemma x_event_prefixes:
  "list_all (\<lambda>n. split_re blank_line_len [] (take n x_event) = [take n x_event]) [0..<length x_event]"
  by code_simp

text \<open>
  Claim C5. Cutting one byte read into two successive reads, at any position and
  anywhere in the stream, does not change the output of the normalizer: what the first
  read leaves incomplete is buffered and joined with the second. In particular the event
  \<open>data: {"response":"x"}\<close> with its blank line, cut at any position, yields exactly one
  content frame with content \<open>x\<close> (then the stop chunk and the sentinel); while only a
  part of the event has arrived, the splitter finds no complete event, the read emits
  nothing and the whole partial text stays in the buffer.
\<close>

theorem split_event_reassembled:
  "toOpenAiSseFromAiStream (pre @ Bytes a # Bytes b # post) cid model clock =
     toOpenAiSseFromAiStream (pre @ Bytes (a @ b) # post) cid model clock
   \<and> toOpenAiSseFromAiStream [Bytes (take n x_event), Bytes (drop n x_event)] cid model clock =
       \<lparr>frames = [sseData (createChunkPayload cid model (Some ''x'') None (clock 0)),
                  sseData (createChunkPayload cid model None (Some ''stop'') (clock 1)),
                  done_frame],
        status = Closed\<rparr>
   \<and> (n < length x_event \<longrightarrow>
        split_re blank_line_len [] (take n x_event) = [take n x_event]
        \<and> pump cid model clock [Bytes (take n x_event)] [] st =
            pump cid model clock [] (take n x_event) st)"
proof (intro conjI impI)
  show "toOpenAiSseFromAiStream (pre @ Bytes a # Bytes b # post) cid model clock =
     toOpenAiSseFromAiStream (pre @ Bytes (a @ b) # post) cid model clock"
    by (rule same_texts_same_output) (rule stream_texts_split_read)
  have "stream_texts [Bytes (take n x_event), Bytes (drop n x_event)] [] =
        stream_texts [Bytes (take n x_event @ drop n x_event)] []"
    using stream_texts_two_reads [of "take n x_event" "drop n x_event" "[]" "[]"] .
  then have texts: "stream_texts [Bytes (take n x_event), Bytes (drop n x_event)] [] = ([''x''], None)"
    by (simp only: append_take_drop_id x_event_texts)
  show "toOpenAiSseFromAiStream [Bytes (take n x_event), Bytes (drop n x_event)] cid model clock =
       \<lparr>frames = [sseData (createChunkPayload cid model (Some ''x'') None (clock 0)),
                  sseData (createChunkPayload cid model None (Some ''stop'') (clock 1)),
                  done_frame],
        status = Closed\<rparr>"
    unfolding normalizer_events stream_events_def stream_sentinel_def stream_status_def texts
    by (simp add: nonempty_def)
next
  assume "n < length x_event"
  then have "n \<in> set [0..<length x_event]" by auto
  with x_event_prefixes
  show buf: "split_re blank_line_len [] (take n x_event) = [take n x_event]"
    unfolding list_all_iff by blast
  then show "pump cid model clock [Bytes (take n x_event)] [] st =
            pump cid model clock [] (take n x_event) st"
    by (simp del: pump.simps(1) add: Let_def)
qed

theorem split_event_reassembled_witness:
  "toOpenAiSseFromAiStream
     [Bytes ''data: {\"respon'', Bytes (''se\":\"x\"}'' @ [CHR 0x0A, CHR 0x0A])]
     ''chatcmpl-1'' (JStr ''m'') (\<lambda>k. 1000 * k) =
   \<lparr>frames =
      [''data: {\"id\":\"chatcmpl-1\",\"object\":\"chat.completion.chunk\",\"created\":0,\"model\":\"m\",\"choices\":[{\"index\":0,\"delta\":{\"content\":\"x\"},\"finish_reason\":null}]}'' @ [CHR 0x0A, CHR 0x0A],
       ''data: {\"id\":\"chatcmpl-1\",\"object\":\"chat.completion.chunk\",\"created\":1,\"model\":\"m\",\"choices\":[{\"index\":0,\"delta\":{},\"finish_reason\":\"stop\"}]}'' @ [CHR 0x0A, CHR 0x0A],
       ''data: [DONE]'' @ [CHR 0x0A, CHR 0x0A]],
    status = Closed\<rparr>
   \<and> split_re blank_line_len [] ''data: {\"respon'' = [''data: {\"respon'']"
proof -
  have f0: "sseData (createChunkPayload ''chatcmpl-1'' (JStr ''m'') (Some ''x'') None 0) =
      ''data: {\"id\":\"chatcmpl-1\",\"object\":\"chat.completion.chunk\",\"created\":0,\"model\":\"m\",\"choices\":[{\"index\":0,\"delta\":{\"content\":\"x\"},\"finish_reason\":null}]}'' @ [CHR 0x0A, CHR 0x0A]"
    by code_simp
  have f1: "sseData (createChunkPayload ''chatcmpl-1'' (JStr ''m'') None (Some ''stop'') 1000) =
      ''data: {\"id\":\"chatcmpl-1\",\"object\":\"chat.completion.chunk\",\"created\":1,\"model\":\"m\",\"choices\":[{\"index\":0,\"delta\":{},\"finish_reason\":\"stop\"}]}'' @ [CHR 0x0A, CHR 0x0A]"
    by code_simp
  have len: "(14::nat) < length x_event"
    by (simp add: x_event_def)
  have t: "take 14 x_event = ''data: {\"respon''" and d: "drop 14 x_event = ''se\":\"x\"}'' @ [CHR 0x0A, CHR 0x0A]"
    by (simp_all add: x_event_def)
  from split_event_reassembled [where n = 14 and cid = "''chatcmpl-1''" and model = "JStr ''m''"
      and clock = "\<lambda>k. 1000 * k"] len
  have "toOpenAiSseFromAiStream [Bytes (take 14 x_event), Bytes (drop 14 x_event)]
          ''chatcmpl-1'' (JStr ''m'') (\<lambda>k. 1000 * k) =
        \<lparr>frames = [sseData (createChunkPayload ''chatcmpl-1'' (JStr ''m'') (Some ''x'') None (1000 * 0)),
                   sseData (createChunkPayload ''chatcmpl-1'' (JStr ''m'') None (Some ''stop'') (1000 * 1)),
                   done_frame],
         status = Closed\<rparr>"
    and "split_re blank_line_len [] (take 14 x_event) = [take 14 x_event]"
    by blast+
  then show ?thesis
    unfolding t d by (simp add: f0 f1 done_frame_def)
qed

section \<open>Stream normalizer: determinism and failure\<close>

lemma chunk_frames_clock:
  "(\<forall>k. clock k div 1000 = clock' k div 1000) \<Longrightarrow>
     chunk_frames cid model clock j evs = chunk_frames cid model clock' j evs"
  by (induction evs arbitrary: j) (auto simp: createChunkPayload_def)

lemma chunk_frames_length: "length (chunk_frames cid model clock j evs) = length evs"
  by (induction evs arbitrary: j) auto

lemma chunk_frames_nth:
  "k < length evs \<Longrightarrow>
     chunk_frames cid model clock j evs ! k =
       sseData (createChunkPayload cid model (fst (evs ! k)) (snd (evs ! k)) (clock (j + k)))"
proof (induction evs arbitrary: j k)
  case Nil
  then show ?case by simp
next
  case (Cons ev evs)
  then show ?case
    by (cases ev; cases k) simp_all
qed

text \<open>
  Claim C9. The output of the normalizer is a function of the reads, the identifier and
  the model, except for the \<open>created\<close> field of each chunk: the events
  (\<open>stream_events\<close>), the sentinel and the final status are computed from the reads
  alone, the \<open>k\<close>-th frame is the serialized chunk of the \<open>k\<close>-th event with the
  \<open>k\<close>-th clock reading, and two passes whose clocks agree in whole seconds produce
  identical output.
\<close>

theorem normalizer_deterministic:
  "frames (toOpenAiSseFromAiStream rs cid model clock) =
     chunk_frames cid model clock 0 (stream_events rs) @ stream_sentinel rs
   \<and> status (toOpenAiSseFromAiStream rs cid model clock) = stream_status rs
   \<and> (\<forall>k < length (stream_events rs).
         frames (toOpenAiSseFromAiStream rs cid model clock) ! k =
           sseData (createChunkPayload cid model (fst (stream_events rs ! k))
                      (snd (stream_events rs ! k)) (clock k)))
   \<and> length (frames (toOpenAiSseFromAiStream rs cid model clock)) =
       length (frames (toOpenAiSseFromAiStream rs cid model clock'))
   \<and> ((\<forall>k. clock k div 1000 = clock' k div 1000) \<longrightarrow>
        toOpenAiSseFromAiStream rs cid model clock = toOpenAiSseFromAiStream rs cid model clock')"
proof (intro conjI allI impI)
  show "frames (toOpenAiSseFromAiStream rs cid model clock) =
     chunk_frames cid model clock 0 (stream_events rs) @ stream_sentinel rs"
    by (simp add: normalizer_events)
  show "status (toOpenAiSseFromAiStream rs cid model clock) = stream_status rs"
    by (simp add: normalizer_events)
  show "length (frames (toOpenAiSseFromAiStream rs cid model clock)) =
       length (frames (toOpenAiSseFromAiStream rs cid model clock'))"
    by (simp add: normalizer_events chunk_frames_length)
next
  fix k
  assume "k < length (stream_events rs)"
  then show "frames (toOpenAiSseFromAiStream rs cid model clock) ! k =
           sseData (createChunkPayload cid model (fst (stream_events rs ! k))
                      (snd (stream_events rs ! k)) (clock k))"
    by (simp add: normalizer_events nth_append chunk_frames_length chunk_frames_nth)
next
  assume "\<forall>k. clock k div 1000 = clock' k div 1000"
  then show "toOpenAiSseFromAiStream rs cid model clock = toOpenAiSseFromAiStream rs cid model clock'"
    by (simp add: normalizer_events chunk_frames_clock [of clock clock'])
qed

theorem normalizer_deterministic_witness:
  "toOpenAiSseFromAiStream [Bytes ''data: {\"respon'', Bytes (''se\":\"x\"}'' @ [CHR 0x0A, CHR 0x0A])]
     ''chatcmpl-1'' (JStr ''m'') (\<lambda>k. 1000 * k + 250)
   = toOpenAiSseFromAiStream [Bytes ''data: {\"respon'', Bytes (''se\":\"x\"}'' @ [CHR 0x0A, CHR 0x0A])]
     ''chatcmpl-1'' (JStr ''m'') (\<lambda>k. 1000 * k + 750)
   \<and> stream_events [Bytes ''data: {\"respon'', Bytes (''se\":\"x\"}'' @ [CHR 0x0A, CHR 0x0A])]
       = [(Some ''x'', None), (None, Some ''stop'')]"
proof -
  have c: "\<forall>k::nat. (1000 * k + 250) div 1000 = (1000 * k + 750) div 1000"
    by simp
  have e: "stream_events [Bytes ''data: {\"respon'', Bytes (''se\":\"x\"}'' @ [CHR 0x0A, CHR 0x0A])]
       = [(Some ''x'', None), (None, Some ''stop'')]"
    by code_simp
  from normalizer_deterministic [of "[Bytes ''data: {\"respon'', Bytes (''se\":\"x\"}'' @ [CHR 0x0A, CHR 0x0A])]"
      "''chatcmpl-1''" "JStr ''m''" "\<lambda>k. 1000 * k + 250" "\<lambda>k. 1000 * k + 750"] c e
  show ?thesis by blast
qed

lemma stream_texts_Text:
  "stream_texts (Text v # rs) buffer = (v # fst (stream_texts rs buffer), snd (stream_texts rs buffer))"
  by (simp add: case_prod_beta)

lemma stream_texts_Bytes:
  "stream_texts (Bytes v # rs) buffer =
     (concat (map part_texts (butlast (split_re blank_line_len [] (buffer @ v))))
        @ fst (stream_texts rs (if split_re blank_line_len [] (buffer @ v) = [] then []
                                else last (split_re blank_line_len [] (buffer @ v)))),
      snd (stream_texts rs (if split_re blank_line_len [] (buffer @ v) = [] then []
                            else last (split_re blank_line_len [] (buffer @ v)))))"
  by (simp add: case_prod_beta Let_def)

lemma no_fail_ending:
  "(\<forall>e. Fails e \<notin> set rs) \<Longrightarrow> snd (stream_texts rs buffer) = None"
proof (induction rs arbitrary: buffer)
  case Nil
  then show ?case by simp
next
  case (Cons r rs)
  then show ?case
    by (cases r) (auto simp add: stream_texts_Text stream_texts_Bytes simp del: stream_texts.simps(3,4))
qed

lemma fail_ending:
  "(\<forall>e'. Fails e' \<notin> set pre) \<Longrightarrow> snd (stream_texts (pre @ Fails e # post) buffer) = Some e"
proof (induction pre arbitrary: buffer)
  case Nil
  then show ?case by simp
next
  case (Cons r rs)
  then show ?case
    by (cases r) (auto simp add: stream_texts_Text stream_texts_Bytes simp del: stream_texts.simps(3,4))
qed

lemma fail_texts:
  "(\<forall>e'. Fails e' \<notin> set pre) \<Longrightarrow>
     fst (stream_texts (pre @ Fails e # post) buffer) = fst (stream_texts (pre @ [Fails e]) buffer)"
proof (induction pre arbitrary: buffer)
  case Nil
  then show ?case by simp
next
  case (Cons r rs)
  then show ?case
    by (cases r) (simp_all add: stream_texts_Text stream_texts_Bytes del: stream_texts.simps(3,4))
qed

lemma fail_texts_prefix:
  "(\<forall>e'. Fails e' \<notin> set pre) \<Longrightarrow>
     \<exists>flush. fst (stream_texts pre buffer) = fst (stream_texts (pre @ Fails e # post) buffer) @ flush"
proof (induction pre arbitrary: buffer)
  case Nil
  then show ?case by simp
next
  case (Cons r rs)
  show ?case
  proof (cases r)
    case (Text v)
    from Cons.IH [of buffer] Cons.prems obtain flush where
      "fst (stream_texts rs buffer) = fst (stream_texts (rs @ Fails e # post) buffer) @ flush"
      by auto
    with Text show ?thesis
      by (simp add: stream_texts_Text del: stream_texts.simps(3,4))
  next
    case (Bytes v)
    let ?b = "if split_re blank_line_len [] (buffer @ v) = [] then []
              else last (split_re blank_line_len [] (buffer @ v))"
    from Cons.IH [of ?b] Cons.prems obtain flush where
      "fst (stream_texts rs ?b) = fst (stream_texts (rs @ Fails e # post) ?b) @ flush"
      by auto
    with Bytes show ?thesis
      by (simp add: stream_texts_Bytes del: stream_texts.simps(3,4))
  next
    case (Fails x)
    with Cons.prems show ?thesis by simp
  qed
qed

lemma content_frame_not_done: "sseData (createChunkPayload cid model c f t) \<noteq> done_frame"
  by (simp add: sseData_def createChunkPayload_def done_frame_def)

lemma join_snoc: "xs \<noteq> [] \<Longrightarrow> join sep (xs @ [x]) = join sep xs @ sep @ x"
  by (induction sep xs rule: join.induct) auto

lemma stringify_obj_last:
  "\<exists>A. JSON_stringify (JObj (fs @ [(k, v)])) = A @ JSON_stringify v @ ''}''"
proof (cases "fs = []")
  case True
  then show ?thesis by simp
next
  case False
  then show ?thesis by (simp add: join_snoc)
qed

lemma stringify_arr_last:
  "\<exists>A. JSON_stringify (JArr (xs @ [y])) = A @ JSON_stringify y @ '']''"
proof (cases "xs = []")
  case True
  then show ?thesis by simp
next
  case False
  then show ?thesis by (simp add: join_snoc)
qed

lemma chunk_payload_ends:
  "\<exists>A. JSON_stringify (createChunkPayload cid model c f t) =
        A @ JSON_stringify (case f of None \<Rightarrow> JNull | Some r \<Rightarrow> JStr r) @ ''}]}''"
proof -
  let ?fr = "case f of None \<Rightarrow> JNull | Some r \<Rightarrow> JStr r"
  let ?choice = "JObj ([(''index'', JNum (Fin 0)),
                       (''delta'', (case c of None \<Rightarrow> JObj [] | Some x \<Rightarrow> JObj [(''content'', JStr x)]))]
                      @ [(''finish_reason'', ?fr)])"
  let ?payload = "JObj ([(''id'', JStr cid), (''object'', JStr ''chat.completion.chunk''),
                        (''created'', JNum (Fin (of_nat (t div 1000)))), (''model'', model)]
                       @ [(''choices'', JArr ([] @ [?choice]))])"
  have p: "createChunkPayload cid model c f t = ?payload"
    by (simp add: createChunkPayload_def)
  obtain A1 where a1: "JSON_stringify ?payload = A1 @ JSON_stringify (JArr ([] @ [?choice])) @ ''}''"
    using stringify_obj_last by blast
  obtain A2 where a2: "JSON_stringify (JArr ([] @ [?choice])) = A2 @ JSON_stringify ?choice @ '']''"
    using stringify_arr_last by blast
  obtain A3 where a3: "JSON_stringify ?choice = A3 @ JSON_stringify ?fr @ ''}''"
    using stringify_obj_last by blast
  have "JSON_stringify ?payload = (A1 @ A2 @ A3) @ JSON_stringify ?fr @ ''}]}''"
    unfolding a1 a2 a3 by simp
  with p show ?thesis by metis
qed

lemma quoted_stop: "QuoteJSONString ''stop'' = ''\"stop\"''"
  by code_simp

lemma content_frame_not_stop:
  "sseData (createChunkPayload cid model (Some x) None t) \<noteq>
   sseData (createChunkPayload cid' model' None (Some ''stop'') t')"
proof
  assume "sseData (createChunkPayload cid model (Some x) None t) =
   sseData (createChunkPayload cid' model' None (Some ''stop'') t')"
  then have eq: "JSON_stringify (createChunkPayload cid model (Some x) None t) =
    JSON_stringify (createChunkPayload cid' model' None (Some ''stop'') t')"
    by (simp add: sseData_def)
  obtain A where a: "JSON_stringify (createChunkPayload cid model (Some x) None t) = (A @ ''nul'') @ ''l}]}''"
    using chunk_payload_ends [of cid model "Some x" None t] by auto
  obtain B where b: "JSON_stringify (createChunkPayload cid' model' None (Some ''stop'') t')
      = (B @ ''\"stop'') @ ''\"}]}''"
    using chunk_payload_ends [of cid' model' None "Some ''stop''" t'] by (auto simp: quoted_stop)
  from eq have "(A @ ''nul'') @ ''l}]}'' = (B @ ''\"stop'') @ ''\"}]}''"
    unfolding a b .
  moreover have "length ''l}]}'' = length ''\"}]}''"
    by simp
  ultimately have "''l}]}'' = ''\"}]}''"
    using append_eq_append_conv [of "A @ ''nul''" "B @ ''\"stop''" "''l}]}''" "''\"}]}''"]
    by blast
  then show False by simp
qed

lemma nonempty_append: "nonempty (xs @ ys) = nonempty xs @ nonempty ys"
  by (simp add: nonempty_def)

lemma content_frames_members:
  "f \<in> set (chunk_frames cid model clock j (map (\<lambda>t. (Some t, None)) (nonempty ts))) \<Longrightarrow>
     \<exists>x k. x \<noteq> [] \<and> f = sseData (createChunkPayload cid model (Some x) None (clock k))"
proof (induction ts arbitrary: j)
  case Nil
  then show ?case by (simp add: nonempty_def)
next
  case (Cons t ts)
  show ?case
  proof (cases "t = []")
    case True
    with Cons show ?thesis by (simp add: nonempty_def)
  next
    case False
    with Cons.prems have "f = sseData (createChunkPayload cid model (Some t) None (clock j))
      \<or> f \<in> set (chunk_frames cid model clock (Suc j) (map (\<lambda>t. (Some t, None)) (nonempty ts)))"
      by (simp add: nonempty_def)
    then show ?thesis
    proof
      assume "f = sseData (createChunkPayload cid model (Some t) None (clock j))"
      with False show ?thesis by blast
    next
      assume "f \<in> set (chunk_frames cid model clock (Suc j) (map (\<lambda>t. (Some t, None)) (nonempty ts)))"
      then show ?thesis by (rule Cons.IH)
    qed
  qed
qed

lemma failed_output:
  assumes "\<forall>e'. Fails e' \<notin> set pre"
  shows "toOpenAiSseFromAiStream (pre @ Fails e # post) cid model clock =
           \<lparr>frames = chunk_frames cid model clock 0
                        (map (\<lambda>t. (Some t, None)) (nonempty (fst (stream_texts (pre @ [Fails e]) [])))),
            status = Errored e\<rparr>"
  using fail_ending [OF assms, of e post "[]"] fail_texts [OF assms, of e post "[]"]
  by (simp add: normalizer_events stream_events_def stream_sentinel_def stream_status_def)

lemma unfailed_output:
  assumes "\<forall>e'. Fails e' \<notin> set rs"
  shows "toOpenAiSseFromAiStream rs cid model clock =
           \<lparr>frames = chunk_frames cid model clock 0
                        (map (\<lambda>t. (Some t, None)) (nonempty (fst (stream_texts rs []))))
                      @ [sseData (createChunkPayload cid model None (Some ''stop'')
                                    (clock (length (nonempty (fst (stream_texts rs []))))))]
                      @ [done_frame],
            status = Closed\<rparr>"
  using no_fail_ending [OF assms, of "[]"]
  by (simp add: normalizer_events stream_events_def stream_sentinel_def stream_status_def
      chunk_frames_append)

lemma done_marker: "trim '' [DONE]'' = ''[DONE]''" "JSON_parse ''[DONE]'' = None"
  by code_simp+

text \<open>
  Claim C8, as stated, fails: the payload \<open>[DONE]\<close> of a \<open>data:\<close> line is not JSON, and
  the normalizer skips the line before the parser is called; no frame is enqueued for it.
\<close>

theorem done_marker_dropped_counterexample:
  "JSON_parse (trim (drop 5 ''data: [DONE]'')) = None
   \<and> handle_line ''chatcmpl-1'' (JStr ''m'') second_clock ''data: [DONE]'' \<lparr>enqueued = [], clock_reads = 0\<rparr>
       = \<lparr>enqueued = [], clock_reads = 0\<rparr>"
  by (simp add: handle_line_def done_marker)

text \<open>
  Claim C8, amended. A \<open>data:\<close> line whose trimmed payload is not empty, is not
  \<open>[DONE]\<close> and does not parse as JSON makes the normalizer enqueue one content frame
  carrying the trimmed payload verbatim (an empty payload and \<open>[DONE]\<close> are skipped), and
  parsing never ends the stream: without a failing read the output is closed. When a read
  fails, the output is errored with the thrown value; its frames are the content frames
  emitted before the failure (a prefix of what the reads before the failure would
  produce, whatever follows the failing read), and neither a stop chunk nor the sentinel
  is among them.
\<close>

theorem parse_failure_verbatim_read_failure_aborts:
  "(trim (drop 5 line) = raw \<and> raw \<noteq> [] \<and> raw \<noteq> ''[DONE]'' \<and> JSON_parse raw = None \<longrightarrow>
      handle_line cid model clock line st =
        \<lparr>enqueued = enqueued st @ [sseData (createChunkPayload cid model (Some raw) None (clock (clock_reads st)))],
         clock_reads = Suc (clock_reads st)\<rparr>)
   \<and> (trim (drop 5 line) = [] \<or> trim (drop 5 line) = ''[DONE]'' \<longrightarrow>
        handle_line cid model clock line st = st)
   \<and> ((\<forall>e. Fails e \<notin> set rs) \<longrightarrow> status (toOpenAiSseFromAiStream rs cid model clock) = Closed)
   \<and> ((\<forall>e'. Fails e' \<notin> set pre) \<longrightarrow>
        status (toOpenAiSseFromAiStream (pre @ Fails e # post) cid model clock) = Errored e
        \<and> frames (toOpenAiSseFromAiStream (pre @ Fails e # post) cid model clock) =
            frames (toOpenAiSseFromAiStream (pre @ [Fails e]) cid model clock)
        \<and> (\<exists>rest. frames (toOpenAiSseFromAiStream pre cid model clock) =
              frames (toOpenAiSseFromAiStream (pre @ Fails e # post) cid model clock) @ rest)
        \<and> (\<forall>f \<in> set (frames (toOpenAiSseFromAiStream (pre @ Fails e # post) cid model clock)).
              \<exists>x k. x \<noteq> [] \<and> f = sseData (createChunkPayload cid model (Some x) None (clock k)))
        \<and> done_frame \<notin> set (frames (toOpenAiSseFromAiStream (pre @ Fails e # post) cid model clock))
        \<and> (\<forall>t. sseData (createChunkPayload cid model None (Some ''stop'') t)
               \<notin> set (frames (toOpenAiSseFromAiStream (pre @ Fails e # post) cid model clock))))"
proof (intro conjI impI)
  assume "trim (drop 5 line) = raw \<and> raw \<noteq> [] \<and> raw \<noteq> ''[DONE]'' \<and> JSON_parse raw = None"
  then show "handle_line cid model clock line st =
        \<lparr>enqueued = enqueued st @ [sseData (createChunkPayload cid model (Some raw) None (clock (clock_reads st)))],
         clock_reads = Suc (clock_reads st)\<rparr>"
    by (simp add: handle_line_def emitContent_def enqueue_chunk_def)
next
  assume "trim (drop 5 line) = [] \<or> trim (drop 5 line) = ''[DONE]''"
  then show "handle_line cid model clock line st = st"
    by (auto simp: handle_line_def)
next
  assume "\<forall>e. Fails e \<notin> set rs"
  then show "status (toOpenAiSseFromAiStream rs cid model clock) = Closed"
    by (simp add: unfailed_output)
next
  assume pre: "\<forall>e'. Fails e' \<notin> set pre"
  let ?out = "toOpenAiSseFromAiStream (pre @ Fails e # post) cid model clock"
  let ?ts = "nonempty (fst (stream_texts (pre @ [Fails e]) []))"
  have out: "?out = \<lparr>frames = chunk_frames cid model clock 0 (map (\<lambda>t. (Some t, None)) ?ts),
                      status = Errored e\<rparr>"
    by (rule failed_output [OF pre])
  show "status ?out = Errored e"
    by (simp add: out)
  show "frames ?out = frames (toOpenAiSseFromAiStream (pre @ [Fails e]) cid model clock)"
    by (simp add: failed_output [OF pre])
  show "\<exists>rest. frames (toOpenAiSseFromAiStream pre cid model clock) = frames ?out @ rest"
  proof -
    from fail_texts_prefix [OF pre, of "[]" e "[]"] obtain flush where
      "fst (stream_texts pre []) = fst (stream_texts (pre @ [Fails e]) []) @ flush"
      by blast
    then show ?thesis
      by (simp add: out unfailed_output [OF pre] nonempty_append chunk_frames_append)
  qed
  have members: "\<exists>x k. x \<noteq> [] \<and> f = sseData (createChunkPayload cid model (Some x) None (clock k))"
    if "f \<in> set (frames ?out)" for f
  proof -
    from that have "f \<in> set (chunk_frames cid model clock 0 (map (\<lambda>t. (Some t, None)) ?ts))"
      by (simp add: out)
    then show ?thesis by (rule content_frames_members)
  qed
  then show "\<forall>f \<in> set (frames ?out).
      \<exists>x k. x \<noteq> [] \<and> f = sseData (createChunkPayload cid model (Some x) None (clock k))"
    by blast
  show "done_frame \<notin> set (frames ?out)"
    using members content_frame_not_done by metis
  show "\<forall>t. sseData (createChunkPayload cid model None (Some ''stop'') t) \<notin> set (frames ?out)"
    using members content_frame_not_stop by metis
qed

theorem parse_failure_verbatim_read_failure_aborts_witness:
  "handle_line ''chatcmpl-1'' (JStr ''m'') (\<lambda>k. 1000 * k) ''data: hello'' \<lparr>enqueued = [], clock_reads = 0\<rparr> =
     \<lparr>enqueued = [''data: {\"id\":\"chatcmpl-1\",\"object\":\"chat.completion.chunk\",\"created\":0,\"model\":\"m\",\"choices\":[{\"index\":0,\"delta\":{\"content\":\"hello\"},\"finish_reason\":null}]}'' @ [CHR 0x0A, CHR 0x0A]],
      clock_reads = Suc 0\<rparr>
   \<and> status (toOpenAiSseFromAiStream [Bytes (''data: hello'' @ [CHR 0x0A, CHR 0x0A]), Text ''more'']
               ''chatcmpl-1'' (JStr ''m'') (\<lambda>k. 1000 * k)) = Closed
   \<and> toOpenAiSseFromAiStream
        [Bytes (''data: hello'' @ [CHR 0x0A, CHR 0x0A]), Fails (Error ''connection reset''), Text ''late'']
        ''chatcmpl-1'' (JStr ''m'') (\<lambda>k. 1000 * k) =
      \<lparr>frames = [''data: {\"id\":\"chatcmpl-1\",\"object\":\"chat.completion.chunk\",\"created\":0,\"model\":\"m\",\"choices\":[{\"index\":0,\"delta\":{\"content\":\"hello\"},\"finish_reason\":null}]}'' @ [CHR 0x0A, CHR 0x0A]],
       status = Errored (Error ''connection reset'')\<rparr>"
proof -
  let ?pre = "[Bytes (''data: hello'' @ [CHR 0x0A, CHR 0x0A])]"
  let ?st = "\<lparr>enqueued = [], clock_reads = 0\<rparr>"
  have f0: "sseData (createChunkPayload ''chatcmpl-1'' (JStr ''m'') (Some ''hello'') None 0) =
      ''data: {\"id\":\"chatcmpl-1\",\"object\":\"chat.completion.chunk\",\"created\":0,\"model\":\"m\",\"choices\":[{\"index\":0,\"delta\":{\"content\":\"hello\"},\"finish_reason\":null}]}'' @ [CHR 0x0A, CHR 0x0A]"
    by code_simp
  have raw: "trim (drop 5 ''data: hello'') = ''hello'' \<and> ''hello'' \<noteq> [] \<and> ''hello'' \<noteq> ''[DONE]''
             \<and> JSON_parse ''hello'' = None"
    by code_simp
  have nofail1: "\<forall>e. Fails e \<notin> set (?pre @ [Text ''more''])"
    by simp
  have nofail2: "\<forall>e'. Fails e' \<notin> set ?pre"
    by simp
  have texts: "stream_texts (?pre @ [Fails (Error ''connection reset'')]) [] = ([''hello''], Some (Error ''connection reset''))"
    by code_simp
  note inst = parse_failure_verbatim_read_failure_aborts
    [of "''data: hello''" "''hello''" "''chatcmpl-1''" "JStr ''m''" "\<lambda>k. 1000 * k" ?st
        "?pre @ [Text ''more'']" ?pre "Error ''connection reset''" "[Text ''late'']"]
  from inst raw have a: "handle_line ''chatcmpl-1'' (JStr ''m'') (\<lambda>k. 1000 * k) ''data: hello'' ?st =
     \<lparr>enqueued = enqueued ?st @ [sseData (createChunkPayload ''chatcmpl-1'' (JStr ''m'') (Some ''hello'') None (1000 * clock_reads ?st))],
      clock_reads = Suc (clock_reads ?st)\<rparr>"
    by blast
  from inst nofail1 have b: "status (toOpenAiSseFromAiStream (?pre @ [Text ''more''])
               ''chatcmpl-1'' (JStr ''m'') (\<lambda>k. 1000 * k)) = Closed"
    by blast
  from inst nofail2 have c: "status (toOpenAiSseFromAiStream (?pre @ Fails (Error ''connection reset'') # [Text ''late''])
               ''chatcmpl-1'' (JStr ''m'') (\<lambda>k. 1000 * k)) = Errored (Error ''connection reset'')"
    and d: "frames (toOpenAiSseFromAiStream (?pre @ Fails (Error ''connection reset'') # [Text ''late''])
               ''chatcmpl-1'' (JStr ''m'') (\<lambda>k. 1000 * k)) =
            frames (toOpenAiSseFromAiStream (?pre @ [Fails (Error ''connection reset'')])
               ''chatcmpl-1'' (JStr ''m'') (\<lambda>k. 1000 * k))"
    by blast+
  have e: "frames (toOpenAiSseFromAiStream (?pre @ [Fails (Error ''connection reset'')])
               ''chatcmpl-1'' (JStr ''m'') (\<lambda>k. 1000 * k)) =
           [sseData (createChunkPayload ''chatcmpl-1'' (JStr ''m'') (Some ''hello'') None 0)]"
    unfolding normalizer_events stream_events_def stream_sentinel_def texts
    by (simp add: nonempty_def)
  have "toOpenAiSseFromAiStream (?pre @ Fails (Error ''connection reset'') # [Text ''late''])
               ''chatcmpl-1'' (JStr ''m'') (\<lambda>k. 1000 * k) =
        \<lparr>frames = [sseData (createChunkPayload ''chatcmpl-1'' (JStr ''m'') (Some ''hello'') None 0)],
         status = Errored (Error ''connection reset'')\<rparr>"
    using c d e by (cases "toOpenAiSseFromAiStream (?pre @ Fails (Error ''connection reset'') # [Text ''late''])
               ''chatcmpl-1'' (JStr ''m'') (\<lambda>k. 1000 * k)") simp
  with a b show ?thesis
    by (simp add: f0)
qed

section \<open>Completion responder\<close>

lemma invalid_request_eq: "invalid_request message = JsonResponse 400 (invalid_request_body message)"
  by (simp add: invalid_request_def createOpenAIError_def invalid_request_body_def)

lemma field_Some_not_null: "field body k = Some v \<Longrightarrow> body \<noteq> JNull"
  by auto

lemma rejects_empty:
  assumes "body \<noteq> JNull" and "request_messages body = []"
  shows "chat_completions e (Some body) =
           (JsonResponse 400 (invalid_request_body ''`messages` must be a non-empty array.''), [])"
  using assms by (cases body) (simp_all add: chat_completions_def invalid_request_eq)

lemma rejects_invalid_message:
  assumes "body \<noteq> JNull" and "request_messages body \<noteq> []"
    and "list_ex invalid_message (request_messages body)"
  shows "chat_completions e (Some body) =
           (JsonResponse 400
              (invalid_request_body ''Each message must include string `role` and non-empty string `content`.''),
            [])"
  using assms by (cases body) (simp_all add: chat_completions_def invalid_request_eq)

lemma valid_request_calls_backend:
  assumes "body \<noteq> JNull" and "request_messages body \<noteq> []"
    and "\<not> list_ex invalid_message (request_messages body)"
  shows "snd (chat_completions e (Some body)) =
           [(request_model body,
             JObj ((''messages'', JArr (request_messages body))
                   # (if truthy (field body ''stream'') then [(''stream'', JBool True)] else [])))]"
  using assms
  by (cases body)
     (simp_all add: chat_completions_def Let_def split: ai_outcome.splits ai_result.splits)

lemma invalid_message_iff:
  "invalid_message m \<longleftrightarrow>
     (\<forall>c. field m ''content'' \<noteq> Some (JStr c))
     \<or> (\<exists>c. field m ''content'' = Some (JStr c) \<and> trim c = [])
     \<or> \<not> truthy (field m ''role'')"
proof (cases "field m ''content''")
  case None
  then show ?thesis by (cases m) (simp_all add: invalid_message_def)
next
  case (Some v)
  then have "m \<noteq> JNull" by auto
  with Some show ?thesis
    by (cases m; cases v) (simp_all add: invalid_message_def)
qed

lemma blank_content: "trim ''   '' = []"
  by code_simp

text \<open>
  Claim C6. A request whose \<open>messages\<close> array is empty, or that holds a message whose
  content is not a string or is blank after trimming (such as three spaces), or whose
  role is missing or falsy, is answered with the structured 400 invalid-request error,
  whatever its other fields are. The backend is not called: the list of calls is empty
  and the answer does not depend on the backend binding.
\<close>

theorem invalid_requests_rejected_before_backend:
  "(body \<noteq> JNull \<and> (request_messages body = [] \<or> (\<exists>m \<in> set (request_messages body). invalid_message m)) \<longrightarrow>
      (\<exists>message. fst (chat_completions e (Some body)) = JsonResponse 400 (invalid_request_body message))
      \<and> snd (chat_completions e (Some body)) = []
      \<and> chat_completions (e\<lparr>AI_run := backend\<rparr>) (Some body) = chat_completions e (Some body))
   \<and> (field body ''messages'' = Some (JArr []) \<longrightarrow>
        chat_completions e (Some body) =
          (JsonResponse 400 (invalid_request_body ''`messages` must be a non-empty array.''), []))
   \<and> (invalid_message m \<longleftrightarrow>
        (\<forall>c. field m ''content'' \<noteq> Some (JStr c))
        \<or> (\<exists>c. field m ''content'' = Some (JStr c) \<and> trim c = [])
        \<or> \<not> truthy (field m ''role''))
   \<and> invalid_message (JObj [(''role'', JStr ''user''), (''content'', JStr ''   '')])"
proof (intro conjI impI)
  assume h: "body \<noteq> JNull \<and> (request_messages body = [] \<or> (\<exists>m \<in> set (request_messages body). invalid_message m))"
  then have nn: "body \<noteq> JNull" by simp
  from h have bad: "request_messages body = [] \<or> list_ex invalid_message (request_messages body)"
    by (simp add: list_ex_iff)
  have rejected: "\<exists>message. chat_completions e' (Some body) = (JsonResponse 400 (invalid_request_body message), [])"
    for e'
  proof (cases "request_messages body = []")
    case True
    then show ?thesis using rejects_empty [OF nn] by blast
  next
    case False
    with bad show ?thesis using rejects_invalid_message [OF nn] by blast
  qed
  from rejected [of e] show "\<exists>message. fst (chat_completions e (Some body)) = JsonResponse 400 (invalid_request_body message)"
    by auto
  from rejected [of e] show "snd (chat_completions e (Some body)) = []"
    by auto
  show "chat_completions (e\<lparr>AI_run := backend\<rparr>) (Some body) = chat_completions e (Some body)"
  proof (cases "request_messages body = []")
    case True
    then show ?thesis by (simp add: rejects_empty [OF nn])
  next
    case False
    with bad show ?thesis by (simp add: rejects_invalid_message [OF nn])
  qed
next
  assume m: "field body ''messages'' = Some (JArr [])"
  then have nn: "body \<noteq> JNull" by auto
  from m have "request_messages body = []"
    by (simp add: request_messages_def)
  then show "chat_completions e (Some body) =
          (JsonResponse 400 (invalid_request_body ''`messages` must be a non-empty array.''), [])"
    by (rule rejects_empty [OF nn])
next
  show "invalid_message m \<longleftrightarrow>
        (\<forall>c. field m ''content'' \<noteq> Some (JStr c))
        \<or> (\<exists>c. field m ''content'' = Some (JStr c) \<and> trim c = [])
        \<or> \<not> truthy (field m ''role'')"
    by (rule invalid_message_iff)
  show "invalid_message (JObj [(''role'', JStr ''user''), (''content'', JStr ''   '')])"
    by (simp add: invalid_message_def blank_content)
qed

theorem invalid_requests_rejected_before_backend_witness:
  "chat_completions
     \<lparr>now = (\<lambda>k. 1000 * k), random_suffix = ''abcd1234'',
      AI_run = (\<lambda>model inputs. Resolves (PlainResult [(''response'', JStr ''unreachable'')]))\<rparr>
     (Some (JObj [(''model'', JStr ''any''), (''stream'', JBool True),
                  (''messages'', JArr [JObj [(''role'', JStr ''user''), (''content'', JStr ''   '')]])]))
   = (JsonResponse 400
        (invalid_request_body ''Each message must include string `role` and non-empty string `content`.''),
      [])
   \<and> chat_completions
     \<lparr>now = (\<lambda>k. 1000 * k), random_suffix = ''abcd1234'',
      AI_run = (\<lambda>model inputs. Resolves (PlainResult [(''response'', JStr ''unreachable'')]))\<rparr>
     (Some (JObj [(''model'', JStr ''any''), (''stream'', JBool True), (''messages'', JArr [])]))
   = (JsonResponse 400 (invalid_request_body ''`messages` must be a non-empty array.''), [])"
proof -
  let ?e = "\<lparr>now = (\<lambda>k. 1000 * k), random_suffix = ''abcd1234'',
      AI_run = (\<lambda>model inputs. Resolves (PlainResult [(''response'', JStr ''unreachable'')]))\<rparr>"
  let ?m = "JObj [(''role'', JStr ''user''), (''content'', JStr ''   '')]"
  let ?b1 = "JObj [(''model'', JStr ''any''), (''stream'', JBool True), (''messages'', JArr [?m])]"
  let ?b2 = "JObj [(''model'', JStr ''any''), (''stream'', JBool True), (''messages'', JArr [])]"
  have inv: "invalid_message ?m"
    using invalid_requests_rejected_before_backend by blast
  have msgs: "request_messages ?b1 = [?m]"
    by (simp add: request_messages_def)
  have hyp: "?b1 \<noteq> JNull \<and> (request_messages ?b1 = [] \<or> (\<exists>m \<in> set (request_messages ?b1). invalid_message m))"
    using inv by (simp add: msgs)
  from invalid_requests_rejected_before_backend [of ?b1 ?e] hyp
  have calls: "snd (chat_completions ?e (Some ?b1)) = []"
    and resp: "\<exists>message. fst (chat_completions ?e (Some ?b1)) = JsonResponse 400 (invalid_request_body message)"
    by blast+
  have "list_ex invalid_message (request_messages ?b1)"
    unfolding msgs using inv by simp
  then have first: "fst (chat_completions ?e (Some ?b1)) =
      JsonResponse 400 (invalid_request_body ''Each message must include string `role` and non-empty string `content`.'')"
    by (subst rejects_invalid_message) (simp_all add: msgs)
  have one: "chat_completions ?e (Some ?b1) =
      (JsonResponse 400 (invalid_request_body ''Each message must include string `role` and non-empty string `content`.''), [])"
    using first calls by (simp add: prod_eq_iff)
  have f: "field ?b2 ''messages'' = Some (JArr [])"
    by simp
  from invalid_requests_rejected_before_backend [of ?b2 ?e] f
  have two: "chat_completions ?e (Some ?b2) =
      (JsonResponse 400 (invalid_request_body ''`messages` must be a non-empty array.''), [])"
    by blast
  from one two show ?thesis by blast
qed


lemma hi_not_blank: "trim ''hi'' = ''hi''"
  by code_simp

text \<open>
  Claim C10. Validation does not check that a role is one of the documented names: when
  every message has a string content that is not blank, any truthy role (the string
  \<open>robot\<close>, say) passes and the backend is called exactly once with the messages; the
  invalid-request error is returned exactly when some role is missing or falsy.
\<close>

theorem role_membership_not_checked:
  "(field body ''messages'' = Some (JArr ms) \<and> ms \<noteq> []
      \<and> (\<forall>m \<in> set ms. \<exists>c. field m ''content'' = Some (JStr c) \<and> trim c \<noteq> []) \<longrightarrow>
      ((\<forall>m \<in> set ms. truthy (field m ''role'')) \<longrightarrow>
         snd (chat_completions e (Some body)) =
           [(request_model body,
             JObj ((''messages'', JArr ms)
                   # (if truthy (field body ''stream'') then [(''stream'', JBool True)] else [])))])
      \<and> ((\<exists>m \<in> set ms. \<not> truthy (field m ''role'')) \<longrightarrow>
         chat_completions e (Some body) =
           (JsonResponse 400
              (invalid_request_body ''Each message must include string `role` and non-empty string `content`.''),
            [])))
   \<and> \<not> invalid_message (JObj [(''role'', JStr ''robot''), (''content'', JStr ''hi'')])
   \<and> truthy (Some (JStr ''robot''))
   \<and> \<not> truthy None \<and> \<not> truthy (Some (JStr [])) \<and> \<not> truthy (Some JNull)"
proof (intro conjI impI)
  assume h: "field body ''messages'' = Some (JArr ms) \<and> ms \<noteq> []
      \<and> (\<forall>m \<in> set ms. \<exists>c. field m ''content'' = Some (JStr c) \<and> trim c \<noteq> [])"
  then have nn: "body \<noteq> JNull" by auto
  from h have msgs: "request_messages body = ms"
    by (simp add: request_messages_def)
  from h have content: "\<And>m. m \<in> set ms \<Longrightarrow> (invalid_message m \<longleftrightarrow> \<not> truthy (field m ''role''))"
    by (auto simp: invalid_message_iff)
  {
    assume "\<forall>m \<in> set ms. truthy (field m ''role'')"
    with content have "\<not> list_ex invalid_message (request_messages body)"
      by (simp add: msgs list_ex_iff)
    with h msgs valid_request_calls_backend [OF nn, of e]
    show "snd (chat_completions e (Some body)) =
           [(request_model body,
             JObj ((''messages'', JArr ms)
                   # (if truthy (field body ''stream'') then [(''stream'', JBool True)] else [])))]"
      by simp
  }
  {
    assume "\<exists>m \<in> set ms. \<not> truthy (field m ''role'')"
    with content have "list_ex invalid_message (request_messages body)"
      by (auto simp: msgs list_ex_iff)
    with h msgs rejects_invalid_message [OF nn, of e]
    show "chat_completions e (Some body) =
           (JsonResponse 400
              (invalid_request_body ''Each message must include string `role` and non-empty string `content`.''),
            [])"
      by simp
  }
next
  show "\<not> invalid_message (JObj [(''role'', JStr ''robot''), (''content'', JStr ''hi'')])"
    by (simp add: invalid_message_def hi_not_blank)
qed simp_all

theorem role_membership_not_checked_witness:
  "snd (chat_completions
     \<lparr>now = (\<lambda>k. 1000 * k), random_suffix = ''abcd1234'',
      AI_run = (\<lambda>model inputs. Resolves (PlainResult [(''response'', JStr ''ok'')]))\<rparr>
     (Some (JObj [(''messages'', JArr [JObj [(''role'', JStr ''robot''), (''content'', JStr ''hi'')]])])))
   = [(JStr ''@cf/meta/llama-3.1-8b-instruct'',
       JObj [(''messages'', JArr [JObj [(''role'', JStr ''robot''), (''content'', JStr ''hi'')]])])]
   \<and> chat_completions
     \<lparr>now = (\<lambda>k. 1000 * k), random_suffix = ''abcd1234'',
      AI_run = (\<lambda>model inputs. Resolves (PlainResult [(''response'', JStr ''ok'')]))\<rparr>
     (Some (JObj [(''messages'', JArr [JObj [(''content'', JStr ''hi'')]])]))
   = (JsonResponse 400
        (invalid_request_body ''Each message must include string `role` and non-empty string `content`.''),
      [])"
proof -
  let ?e = "\<lparr>now = (\<lambda>k. 1000 * k), random_suffix = ''abcd1234'',
      AI_run = (\<lambda>model inputs. Resolves (PlainResult [(''response'', JStr ''ok'')]))\<rparr>"
  let ?m1 = "JObj [(''role'', JStr ''robot''), (''content'', JStr ''hi'')]"
  let ?m2 = "JObj [(''content'', JStr ''hi'')]"
  let ?b1 = "JObj [(''messages'', JArr [?m1])]"
  let ?b2 = "JObj [(''messages'', JArr [?m2])]"
  have h1: "field ?b1 ''messages'' = Some (JArr [?m1]) \<and> [?m1] \<noteq> []
      \<and> (\<forall>m \<in> set [?m1]. \<exists>c. field m ''content'' = Some (JStr c) \<and> trim c \<noteq> [])"
    by (simp add: hi_not_blank)
  have r1: "\<forall>m \<in> set [?m1]. truthy (field m ''role'')"
    by simp
  have h2: "field ?b2 ''messages'' = Some (JArr [?m2]) \<and> [?m2] \<noteq> []
      \<and> (\<forall>m \<in> set [?m2]. \<exists>c. field m ''content'' = Some (JStr c) \<and> trim c \<noteq> [])"
    by (simp add: hi_not_blank)
  have r2: "\<exists>m \<in> set [?m2]. \<not> truthy (field m ''role'')"
    by simp
  have model: "request_model ?b1 = JStr ''@cf/meta/llama-3.1-8b-instruct''"
    by (simp add: request_model_def DEFAULT_MODEL_def)
  have stream: "\<not> truthy (field ?b1 ''stream'')"
    by simp
  from role_membership_not_checked [of ?b1 "[?m1]" ?e] h1 r1
  have "snd (chat_completions ?e (Some ?b1)) =
           [(request_model ?b1,
             JObj ((''messages'', JArr [?m1])
                   # (if truthy (field ?b1 ''stream'') then [(''stream'', JBool True)] else [])))]"
    by blast
  then have one: "snd (chat_completions ?e (Some ?b1)) =
      [(JStr ''@cf/meta/llama-3.1-8b-instruct'', JObj [(''messages'', JArr [?m1])])]"
    unfolding model using stream by simp
  from role_membership_not_checked [of ?b2 "[?m2]" ?e] h2 r2
  have two: "chat_completions ?e (Some ?b2) =
           (JsonResponse 400
              (invalid_request_body ''Each message must include string `role` and non-empty string `content`.''),
            [])"
    by blast
  from one two show ?thesis by blast
qed

lemma stream_fallback_frames:
  assumes "body \<noteq> JNull" and "request_messages body \<noteq> []"
    and "\<not> list_ex invalid_message (request_messages body)"
    and "truthy (field body ''stream'')"
    and "AI_run e (request_model body)
           (JObj [(''messages'', JArr (request_messages body)), (''stream'', JBool True)])
         = Resolves (PlainResult r)"
  shows "fst (chat_completions e (Some body)) =
           EventStream sse_headers
             \<lparr>frames =
                [sseData (createChunkPayload (''chatcmpl-'' @ show_nat (now e 0) @ ''-'' @ random_suffix e)
                            (request_model body) (Some (extractTextFromAiResult r)) None (now e 1)),
                 sseData (createChunkPayload (''chatcmpl-'' @ show_nat (now e 0) @ ''-'' @ random_suffix e)
                            (request_model body) None (Some ''stop'') (now e 2)),
                 ''data: [DONE]'' @ [CHR 0x5C, CHR ''n'', CHR 0x5C, CHR ''n'']],
              status = Closed\<rparr>"
  using assms
  by (cases body)
     (simp_all add: chat_completions_def Let_def fallback_done_frame_def numeral_2_eq_2)

lemma fallback_response_text: "extractTextFromAiResult [(''response'', JStr ''hi'')] = ''hi''"
  by code_simp

text \<open>
  Claim C3, evaluated on the code. With \<open>stream\<close> set and a backend that returns the plain
  object \<open>{response: "hi"}\<close>, the response has one content chunk, one stop chunk and a
  third chunk that spells the sentinel with the four characters backslash, \<open>n\<close>,
  backslash, \<open>n\<close> where the normalizer writes two line feeds: it is not followed by a
  blank line.
\<close>

theorem stream_fallback_sentinel_not_terminated:
  "fst (chat_completions
     \<lparr>now = (\<lambda>k. 1000 * k), random_suffix = ''abcd1234'',
      AI_run = (\<lambda>model inputs. Resolves (PlainResult [(''response'', JStr ''hi'')]))\<rparr>
     (Some (JObj [(''messages'', JArr [JObj [(''role'', JStr ''user''), (''content'', JStr ''hi'')]]),
                  (''stream'', JBool True)])))
   = EventStream
       [(''content-type'', ''text/event-stream; charset=utf-8''),
        (''cache-control'', ''no-cache, no-transform''),
        (''connection'', ''keep-alive'')]
       \<lparr>frames =
          [''data: {\"id\":\"chatcmpl-0-abcd1234\",\"object\":\"chat.completion.chunk\",\"created\":1,\"model\":\"@cf/meta/llama-3.1-8b-instruct\",\"choices\":[{\"index\":0,\"delta\":{\"content\":\"hi\"},\"finish_reason\":null}]}'' @ [CHR 0x0A, CHR 0x0A],
           ''data: {\"id\":\"chatcmpl-0-abcd1234\",\"object\":\"chat.completion.chunk\",\"created\":2,\"model\":\"@cf/meta/llama-3.1-8b-instruct\",\"choices\":[{\"index\":0,\"delta\":{},\"finish_reason\":\"stop\"}]}'' @ [CHR 0x0A, CHR 0x0A],
           ''data: [DONE]'' @ [CHR 0x5C, CHR ''n'', CHR 0x5C, CHR ''n'']],
        status = Closed\<rparr>
   \<and> ''data: [DONE]'' @ [CHR 0x5C, CHR ''n'', CHR 0x5C, CHR ''n''] \<noteq> done_frame
   \<and> done_frame = ''data: [DONE]'' @ [CHR 0x0A, CHR 0x0A]"
proof -
  let ?e = "\<lparr>now = (\<lambda>k. 1000 * k), random_suffix = ''abcd1234'',
      AI_run = (\<lambda>model inputs. Resolves (PlainResult [(''response'', JStr ''hi'')]))\<rparr>"
  let ?m = "JObj [(''role'', JStr ''user''), (''content'', JStr ''hi'')]"
  let ?b = "JObj [(''messages'', JArr [?m]), (''stream'', JBool True)]"
  have msgs: "request_messages ?b = [?m]"
    by (simp add: request_messages_def)
  have model: "request_model ?b = JStr ''@cf/meta/llama-3.1-8b-instruct''"
    by (simp add: request_model_def DEFAULT_MODEL_def)
  have rid: "''chatcmpl-'' @ show_nat (now ?e 0) @ ''-'' @ random_suffix ?e = ''chatcmpl-0-abcd1234''"
    by code_simp
  have f0: "sseData (createChunkPayload ''chatcmpl-0-abcd1234'' (JStr ''@cf/meta/llama-3.1-8b-instruct'')
                (Some ''hi'') None 1000) =
      ''data: {\"id\":\"chatcmpl-0-abcd1234\",\"object\":\"chat.completion.chunk\",\"created\":1,\"model\":\"@cf/meta/llama-3.1-8b-instruct\",\"choices\":[{\"index\":0,\"delta\":{\"content\":\"hi\"},\"finish_reason\":null}]}'' @ [CHR 0x0A, CHR 0x0A]"
    by code_simp
  have f1: "sseData (createChunkPayload ''chatcmpl-0-abcd1234'' (JStr ''@cf/meta/llama-3.1-8b-instruct'')
                None (Some ''stop'') 2000) =
      ''data: {\"id\":\"chatcmpl-0-abcd1234\",\"object\":\"chat.completion.chunk\",\"created\":2,\"model\":\"@cf/meta/llama-3.1-8b-instruct\",\"choices\":[{\"index\":0,\"delta\":{},\"finish_reason\":\"stop\"}]}'' @ [CHR 0x0A, CHR 0x0A]"
    by code_simp
  have "fst (chat_completions ?e (Some ?b)) =
           EventStream sse_headers
             \<lparr>frames =
                [sseData (createChunkPayload (''chatcmpl-'' @ show_nat (now ?e 0) @ ''-'' @ random_suffix ?e)
                            (request_model ?b) (Some (extractTextFromAiResult [(''response'', JStr ''hi'')])) None (now ?e 1)),
                 sseData (createChunkPayload (''chatcmpl-'' @ show_nat (now ?e 0) @ ''-'' @ random_suffix ?e)
                            (request_model ?b) None (Some ''stop'') (now ?e 2)),
                 ''data: [DONE]'' @ [CHR 0x5C, CHR ''n'', CHR 0x5C, CHR ''n'']],
              status = Closed\<rparr>"
    by (rule stream_fallback_frames) (simp_all add: msgs invalid_message_def hi_not_blank)
  then have "fst (chat_completions ?e (Some ?b)) =
           EventStream sse_headers
             \<lparr>frames =
                [sseData (createChunkPayload ''chatcmpl-0-abcd1234''
                            (JStr ''@cf/meta/llama-3.1-8b-instruct'') (Some ''hi'') None 1000),
                 sseData (createChunkPayload ''chatcmpl-0-abcd1234''
                            (JStr ''@cf/meta/llama-3.1-8b-instruct'') None (Some ''stop'') 2000),
                 ''data: [DONE]'' @ [CHR 0x5C, CHR ''n'', CHR 0x5C, CHR ''n'']],
              status = Closed\<rparr>"
    unfolding rid model fallback_response_text by simp
  then show ?thesis
    unfolding f0 f1 by (simp add: done_frame_def sse_headers_def)
qed

section \<open>Completion responder: completion and backend failure\<close>

text \<open>
  A valid request without \<open>stream\<close>, answered by the backend with a plain object, gets
  the completion object whose message content is the extracted text and whose usage is
  the extracted usage; the backend is called once.
\<close>

theorem non_streaming_completion:
  "body \<noteq> JNull \<and> request_messages body \<noteq> []
   \<and> \<not> list_ex invalid_message (request_messages body)
   \<and> \<not> truthy (field body ''stream'')
   \<and> AI_run e (request_model body) (JObj [(''messages'', JArr (request_messages body))])
       = Resolves (PlainResult r) \<longrightarrow>
   chat_completions e (Some body) =
     (JsonResponse 200
        (JObj [(''id'', JStr (''chatcmpl-'' @ show_nat (now e 0) @ ''-'' @ random_suffix e)),
               (''object'', JStr ''chat.completion''),
               (''created'', JNum (Fin (of_nat (now e 1 div 1000)))),
               (''model'', request_model body),
               (''choices'',
                  JArr [JObj [(''index'', JNum (Fin 0)),
                              (''message'', JObj [(''role'', JStr ''assistant''),
                                                  (''content'', JStr (extractTextFromAiResult r))]),
                              (''finish_reason'', JStr ''stop'')]]),
               (''usage'', usage_json (extractUsageFromAiResult r))]),
      [(request_model body, JObj [(''messages'', JArr (request_messages body))])])"
  by (cases body) (simp_all add: chat_completions_def Let_def)

theorem non_streaming_completion_witness:
  "chat_completions
     \<lparr>now = (\<lambda>k. 1000 * k), random_suffix = ''abcd1234'',
      AI_run = (\<lambda>model inputs. Resolves (PlainResult [(''response'', JStr ''hello''),
                  (''usage'', JObj [(''prompt_tokens'', JNum (Fin 3)), (''completion_tokens'', JNum (Fin 5))])]))\<rparr>
     (Some (JObj [(''messages'', JArr [JObj [(''role'', JStr ''user''), (''content'', JStr ''hi'')]])]))
   = (JsonResponse 200
        (JObj [(''id'', JStr ''chatcmpl-0-abcd1234''),
               (''object'', JStr ''chat.completion''),
               (''created'', JNum (Fin 1)),
               (''model'', JStr ''@cf/meta/llama-3.1-8b-instruct''),
               (''choices'',
                  JArr [JObj [(''index'', JNum (Fin 0)),
                              (''message'', JObj [(''role'', JStr ''assistant''),
                                                  (''content'', JStr ''hello'')]),
                              (''finish_reason'', JStr ''stop'')]]),
               (''usage'', JObj [(''prompt_tokens'', JNum (Fin 3)),
                                 (''completion_tokens'', JNum (Fin 5)),
                                 (''total_tokens'', JNum (Fin 8))])]),
      [(JStr ''@cf/meta/llama-3.1-8b-instruct'',
        JObj [(''messages'', JArr [JObj [(''role'', JStr ''user''), (''content'', JStr ''hi'')]])])])"
proof -
  let ?r = "[(''response'', JStr ''hello''),
             (''usage'', JObj [(''prompt_tokens'', JNum (Fin 3)), (''completion_tokens'', JNum (Fin 5))])]"
  let ?e = "\<lparr>now = (\<lambda>k. 1000 * k), random_suffix = ''abcd1234'',
      AI_run = (\<lambda>model inputs. Resolves (PlainResult ?r))\<rparr>"
  let ?m = "JObj [(''role'', JStr ''user''), (''content'', JStr ''hi'')]"
  let ?b = "JObj [(''messages'', JArr [?m])]"
  have msgs: "request_messages ?b = [?m]"
    by (simp add: request_messages_def)
  have model: "request_model ?b = JStr ''@cf/meta/llama-3.1-8b-instruct''"
    by (simp add: request_model_def DEFAULT_MODEL_def)
  have hyp: "?b \<noteq> JNull \<and> request_messages ?b \<noteq> []
   \<and> \<not> list_ex invalid_message (request_messages ?b)
   \<and> \<not> truthy (field ?b ''stream'')
   \<and> AI_run ?e (request_model ?b) (JObj [(''messages'', JArr (request_messages ?b))])
       = Resolves (PlainResult ?r)"
    by (simp add: msgs invalid_message_def hi_not_blank)
  have rid: "''chatcmpl-'' @ show_nat (now ?e 0) @ ''-'' @ random_suffix ?e = ''chatcmpl-0-abcd1234''"
    by code_simp
  have content: "extractTextFromAiResult ?r = ''hello''"
    by code_simp
  have usage: "usage_json (extractUsageFromAiResult ?r) =
      JObj [(''prompt_tokens'', JNum (Fin 3)), (''completion_tokens'', JNum (Fin 5)),
            (''total_tokens'', JNum (Fin 8))]"
    by (simp add: usage_json_def extractUsageFromAiResult_def getUsageFromObject_def
        promptTokens_def completionTokens_def totalTokens_def)
  have created: "now ?e 1 div 1000 = 1"
    by simp
  from non_streaming_completion [of ?b ?e ?r] hyp
  have "chat_completions ?e (Some ?b) =
     (JsonResponse 200
        (JObj [(''id'', JStr (''chatcmpl-'' @ show_nat (now ?e 0) @ ''-'' @ random_suffix ?e)),
               (''object'', JStr ''chat.completion''),
               (''created'', JNum (Fin (of_nat (now ?e 1 div 1000)))),
               (''model'', request_model ?b),
               (''choices'',
                  JArr [JObj [(''index'', JNum (Fin 0)),
                              (''message'', JObj [(''role'', JStr ''assistant''),
                                                  (''content'', JStr (extractTextFromAiResult ?r))]),
                              (''finish_reason'', JStr ''stop'')]]),
               (''usage'', usage_json (extractUsageFromAiResult ?r))]),
      [(request_model ?b, JObj [(''messages'', JArr (request_messages ?b))])])"
    by blast
  then show ?thesis
    unfolding rid content usage created model msgs by simp
qed

text \<open>
  When the backend call of a valid request rejects, the answer is the structured 500
  error carrying the message of the thrown error.
\<close>

theorem backend_failure_is_server_error:
  "body \<noteq> JNull \<and> request_messages body \<noteq> []
   \<and> \<not> list_ex invalid_message (request_messages body)
   \<and> AI_run e (request_model body)
         (JObj ((''messages'', JArr (request_messages body))
                # (if truthy (field body ''stream'') then [(''stream'', JBool True)] else [])))
       = Rejects err \<longrightarrow>
   fst (chat_completions e (Some body)) =
     JsonResponse 500
       (JObj [(''error'',
               JObj [(''message'', JStr (case err of Error m \<Rightarrow> m | NotAnError \<Rightarrow> ''Workers AI call failed.'')),
                     (''type'', JStr ''server_error''), (''param'', JNull), (''code'', JNull)])])"
  by (cases body) (auto simp: chat_completions_def Let_def server_error_def)

theorem backend_failure_is_server_error_witness:
  "fst (chat_completions
     \<lparr>now = (\<lambda>k. 1000 * k), random_suffix = ''abcd1234'',
      AI_run = (\<lambda>model inputs. Rejects (Error ''model overloaded''))\<rparr>
     (Some (JObj [(''messages'', JArr [JObj [(''role'', JStr ''user''), (''content'', JStr ''hi'')]])])))
   = JsonResponse 500
       (JObj [(''error'',
               JObj [(''message'', JStr ''model overloaded''),
                     (''type'', JStr ''server_error''), (''param'', JNull), (''code'', JNull)])])"
proof -
  let ?e = "\<lparr>now = (\<lambda>k. 1000 * k), random_suffix = ''abcd1234'',
      AI_run = (\<lambda>model inputs. Rejects (Error ''model overloaded''))\<rparr>"
  let ?m = "JObj [(''role'', JStr ''user''), (''content'', JStr ''hi'')]"
  let ?b = "JObj [(''messages'', JArr [?m])]"
  have msgs: "request_messages ?b = [?m]"
    by (simp add: request_messages_def)
  have hyp: "?b \<noteq> JNull \<and> request_messages ?b \<noteq> []
   \<and> \<not> list_ex invalid_message (request_messages ?b)
   \<and> AI_run ?e (request_model ?b)
         (JObj ((''messages'', JArr (request_messages ?b))
                # (if truthy (field ?b ''stream'') then [(''stream'', JBool True)] else [])))
       = Rejects (Error ''model overloaded'')"
    by (simp add: msgs invalid_message_def hi_not_blank)
  from backend_failure_is_server_error [of ?b ?e "Error ''model overloaded''"] hyp
  show ?thesis by simp
qed

end
